(* ===== verification/Prelude.thy ===== *)
theory Prelude
  imports Main "HOL-Library.Word" "HOL-Library.List_Lexorder"
begin

text \<open>
  Shared vocabulary of the development: the machine types of the Go sources, the
  result type of fallible code, big-endian byte strings as numbers, and the
  lexicographic order on byte strings, which is Go's \<^verbatim>\<open>bytes.Compare\<close>.
\<close>

unbundle bit_operations_syntax

section \<open>Machine types\<close>

text \<open>
  Go's \<^verbatim>\<open>uint64\<close> is a 64-bit word read by \<open>unat\<close>; Go's \<^verbatim>\<open>int64\<close> is the same word
  read by \<open>sint\<close>, so that the conversions \<^verbatim>\<open>uint64(v)\<close> and \<^verbatim>\<open>int64(u)\<close> are the identity
  and arithmetic wraps around exactly as it does in Go.
\<close>

type_synonym byte = "8 word"
type_synonym bytes = "byte list"
type_synonym u64 = "64 word"
type_synonym i64 = "64 word"

named_theorems codec_simps \<open>unfolding rules of the codecs\<close>
named_theorems result_simps \<open>rules for computations in the result type\<close>

section \<open>Results of fallible code\<close>

definition res_bind :: "'e + 'a \<Rightarrow> ('a \<Rightarrow> 'e + 'b) \<Rightarrow> 'e + 'b" where
  "res_bind r f = (case r of Inl e \<Rightarrow> Inl e | Inr a \<Rightarrow> f a)"

lemma res_bind_Inl [simp]: "res_bind (Inl e) f = Inl e"
  by (simp add: res_bind_def)

lemma res_bind_Inr [simp]: "res_bind (Inr a) f = f a"
  by (simp add: res_bind_def)

lemma res_bind_eq_Inr [result_simps]:
  "res_bind r f = Inr b \<longleftrightarrow> (\<exists>a. r = Inr a \<and> f a = Inr b)"
  by (cases r) auto

lemma res_bind_eq_Inl [result_simps]:
  "res_bind r f = Inl e \<longleftrightarrow> r = Inl e \<or> (\<exists>a. r = Inr a \<and> f a = Inl e)"
  by (cases r) auto

section \<open>Lexicographic order on byte strings\<close>

lemma append_less_append_eq_length:
  fixes xs ys :: "'a::linorder list"
  assumes "length xs = length ys"
  shows "xs @ us < ys @ vs \<longleftrightarrow> xs < ys \<or> xs = ys \<and> us < vs"
  using assms by (induction xs ys rule: list_induct2) auto

lemma append_less_same_prefix [simp]:
  fixes ps :: "'a::linorder list"
  shows "ps @ us < ps @ vs \<longleftrightarrow> us < vs"
  by (induction ps) auto

lemma append_le_same_prefix [simp]:
  fixes ps :: "'a::linorder list"
  shows "ps @ us \<le> ps @ vs \<longleftrightarrow> us \<le> vs"
  by (induction ps) auto

lemma prefix_le_append [simp]:
  fixes ps :: "'a::linorder list"
  shows "ps \<le> ps @ us"
  by (induction ps) auto

text \<open>Two byte strings, neither a prefix of the other, differ at a first position.\<close>

lemma less_first_diff:
  fixes xs ys :: "'a::linorder list"
  assumes "xs < ys" "\<nexists>r. ys = xs @ r"
  shows "\<exists>p a b xs' ys'. xs = p @ a # xs' \<and> ys = p @ b # ys' \<and> a < b"
  using assms
proof (induction xs arbitrary: ys)
  case (Cons x xs)
  then obtain y ys' where ys: "ys = y # ys'" and xy: "x < y \<or> x = y \<and> xs < ys'"
    by (cases ys) auto
  show ?case
  proof (cases "x < y")
    case True
    then show ?thesis using ys by (metis append_Nil)
  next
    case False
    with xy Cons.prems ys have "x = y" "xs < ys'" "\<nexists>r. ys' = xs @ r"
      by auto
    with Cons.IH ys show ?thesis by (metis append_Cons)
  qed
qed simp

section \<open>Big-endian numbers\<close>

primrec be_val :: "bytes \<Rightarrow> nat" where
  "be_val [] = 0"
| "be_val (b # bs) = unat b * 256 ^ length bs + be_val bs"

primrec be_bytes :: "nat \<Rightarrow> nat \<Rightarrow> bytes" where
  "be_bytes 0 v = []"
| "be_bytes (Suc k) v = word_of_nat (v div 256 ^ k) # be_bytes k v"

lemma be_bytes_numeral:
  "be_bytes (numeral k) v = word_of_nat (v div 256 ^ pred_numeral k) # be_bytes (pred_numeral k) v"
  by (simp only: numeral_eq_Suc be_bytes.simps)

lemma be_bytes_1: "be_bytes 1 v = [word_of_nat v]"
  by simp

lemma unat_byte_less [simp]: "unat (b :: byte) < 256"
  using unsigned_less [of b, where 'a = nat] by simp

lemma unat_byte_le [simp]: "unat (b :: byte) \<le> 255"
  using unat_byte_less [of b] by linarith

lemma length_be_bytes [simp]: "length (be_bytes k v) = k"
  by (induction k) auto

lemma be_val_less: "be_val bs < 256 ^ length bs"
proof (induction bs)
  case Nil
  show ?case by simp
next
  case (Cons b bs)
  have "unat b * 256 ^ length bs + be_val bs < (unat b + 1) * 256 ^ length bs"
    using Cons by (simp add: algebra_simps)
  also have "\<dots> \<le> 256 * 256 ^ length bs"
    by (intro mult_le_mono1) (simp add: Suc_leI)
  finally show ?case by simp
qed

lemma be_val_be_bytes: "be_val (be_bytes k v) = v mod 256 ^ k"
proof (induction k)
  case 0
  show ?case by simp
next
  case (Suc k)
  have "v mod 256 ^ Suc k = 256 ^ k * (v div 256 ^ k mod 256) + v mod 256 ^ k"
    by (simp only: power_Suc2 mod_mult2_eq)
  then show ?case
    using Suc by (simp add: unat_of_nat)
qed

lemma be_bytes_add_mult: "be_bytes k (a * 256 ^ k + v) = be_bytes k v"
proof (induction k arbitrary: a)
  case 0
  show ?case by simp
next
  case (Suc k)
  have eq: "a * 256 ^ Suc k + v = (a * 256) * 256 ^ k + v"
    by simp
  have "(a * 256 ^ Suc k + v) div 256 ^ k = a * 256 + v div 256 ^ k"
    unfolding eq by (subst div_mult_self3) simp_all
  moreover have "(256 :: byte) = 0"
    by simp
  ultimately have "(word_of_nat ((a * 256 ^ Suc k + v) div 256 ^ k) :: byte) = word_of_nat (v div 256 ^ k)"
    by (simp only: of_nat_add of_nat_mult of_nat_numeral mult_zero_right add_0)
  moreover have "be_bytes k (a * 256 ^ Suc k + v) = be_bytes k v"
    unfolding eq by (rule Suc)
  ultimately show ?case by simp
qed

lemma be_bytes_be_val: "be_bytes (length bs) (be_val bs) = bs"
proof (induction bs)
  case Nil
  show ?case by simp
next
  case (Cons b bs)
  have "(unat b * 256 ^ length bs + be_val bs) div 256 ^ length bs = unat b"
    using be_val_less [of bs] by simp
  then show ?case
    using Cons by (simp add: be_bytes_add_mult)
qed

lemma be_val_inject:
  "length xs = length ys \<Longrightarrow> be_val xs = be_val ys \<longleftrightarrow> xs = ys"
  using be_bytes_be_val by metis

lemma be_val_less_iff:
  "length xs = length ys \<Longrightarrow> xs < ys \<longleftrightarrow> be_val xs < be_val ys"
proof (induction xs ys rule: list_induct2)
  case Nil
  show ?case by simp
next
  case (Cons x xs y ys)
  let ?p = "(256::nat) ^ length xs"
  have bnd: "be_val xs < ?p" "be_val ys < ?p"
    using be_val_less [of xs] be_val_less [of ys] Cons.hyps by simp_all
  have strict: "unat a * ?p + be_val as < unat b * ?p + be_val bs"
    if "a < b" "be_val as < ?p" for a b :: byte and as bs
  proof -
    have "unat a * ?p + be_val as < (unat a + 1) * ?p"
      using that by (simp add: algebra_simps)
    also have "\<dots> \<le> unat b * ?p"
      using that by (intro mult_le_mono1) (simp add: word_less_nat_alt)
    finally show ?thesis by linarith
  qed
  consider "x < y" | "x = y" | "y < x" by fastforce
  then show ?case
  proof cases
    case 1
    then show ?thesis using strict [OF 1 bnd(1), of ys] Cons.hyps by simp
  next
    case 2
    then show ?thesis using Cons by simp
  next
    case 3
    then show ?thesis using strict [OF 3 bnd(2), of xs] Cons.hyps by (auto simp: not_less)
  qed
qed

lemma be_bytes_less_iff:
  "\<lbrakk>v < 256 ^ k; w < 256 ^ k\<rbrakk> \<Longrightarrow> be_bytes k v < be_bytes k w \<longleftrightarrow> v < w"
  by (simp add: be_val_less_iff be_val_be_bytes)

lemma be_bytes_inject:
  "\<lbrakk>v < 256 ^ k; w < 256 ^ k\<rbrakk> \<Longrightarrow> be_bytes k v = be_bytes k w \<longleftrightarrow> v = w"
  by (metis be_val_be_bytes mod_less)

section \<open>Bitwise facts\<close>

lemma sint_inject [simp]: "sint a = sint b \<longleftrightarrow> a = (b :: 'a::len word)"
  by (auto intro: signed_word_eqI)

lemma sint_neqE: "a \<noteq> b \<Longrightarrow> sint a < sint b \<or> sint b < sint (a :: 'a::len word)"
  using sint_inject [of a b] by linarith

lemma sint_of_int_range:
  "\<lbrakk>- (2 ^ 63) \<le> k; k < 2 ^ 63\<rbrakk> \<Longrightarrow> sint (word_of_int k :: i64) = k"
  by (simp add: signed_of_int signed_take_bit_int_eq_self)

lemma unat_u64_less: "unat (v :: u64) < 2 ^ 64"
  using unsigned_less [of v, where 'a = nat] by simp

lemma uint_u64_less: "uint (v :: u64) < 2 ^ 64"
  using uint_lt2p [of v] by simp

lemma sint_uint64:
  "sint (v :: i64) = (if uint v < 2 ^ 63 then uint v else uint v - 2 ^ 64)"
proof -
  have "sint (word_of_int (uint v) :: i64) = uint v" if "uint v < 2 ^ 63"
    using that order.trans [OF _ uint_ge_0 [of v]] by (intro sint_of_int_range) simp_all
  moreover have "sint (word_of_int (uint v - 2 ^ 64) :: i64) = uint v - 2 ^ 64" if "\<not> uint v < 2 ^ 63"
    using that uint_u64_less [of v] by (intro sint_of_int_range) simp_all
  moreover have "(word_of_int (uint v - 2 ^ 64) :: i64) = v" "(word_of_int (uint v) :: i64) = v"
    by simp_all
  ultimately show ?thesis by (simp only: split: if_split) blast
qed

lemma sint_i64_bounds: "- (2 ^ 63) \<le> sint (v :: i64)" "sint (v :: i64) < 2 ^ 63"
  using sint_ge [of v] sint_lt [of v] by simp_all

lemma uint_NOT: "uint (NOT a) = 2 ^ LENGTH('a) - 1 - uint (a :: 'a::len word)"
proof -
  let ?k = "2 ^ LENGTH('a) - 1 - uint a"
  have "NOT a = word_of_int ?k"
    by (simp add: not_eq_complement)
  moreover have "0 \<le> ?k"
    using uint_lt2p [of a] by simp
  moreover have "?k < 2 ^ LENGTH('a)"
    using uint_ge_0 [of a] by linarith
  ultimately show ?thesis
    by (simp only: uint_word_of_int_eq take_bit_int_eq_self)
qed

lemma NOT_less_NOT_word [simp]: "NOT a < NOT b \<longleftrightarrow> b < (a :: 'a::len word)"
  by (simp add: word_less_def uint_NOT)

lemma map_NOT_less_iff:
  "length xs = length ys \<Longrightarrow>
     map (\<lambda>b. NOT b) xs < map (\<lambda>b. NOT b) ys \<longleftrightarrow> ys < (xs :: 'a::len word list)"
  by (induction xs ys rule: list_induct2) auto

lemma sint_add_int:
  assumes "- (2 ^ 63) \<le> sint (x :: i64) + n" "sint x + n < 2 ^ 63"
  shows "sint (x + word_of_int n) = sint x + n"
proof -
  have "x + word_of_int n = word_of_int (sint x + n)"
    by simp
  then show ?thesis
    using sint_of_int_range [OF assms] by simp
qed

lemma sint_succ: "sint (x :: i64) < sint (y :: i64) \<Longrightarrow> sint (x + 1) = sint x + 1"
  using sint_add_int [of x 1] sint_i64_bounds [of x] sint_i64_bounds [of y] by simp

lemma sint_pred: "sint (y :: i64) < sint (x :: i64) \<Longrightarrow> sint (x - 1) = sint x - 1"
  using sint_add_int [of x "- 1"] sint_i64_bounds [of x] sint_i64_bounds [of y] by simp

end
