(* ===== verification/Go_Std.thy ===== *)
theory Go_Std
  imports Prelude
begin

text \<open>
  The parts of the Go standard library the modelled sources call:
  \<^verbatim>\<open>encoding/binary\<close> (big-endian integers and varints), \<^verbatim>\<open>bytes\<close> (comparison and
  prefixes) and \<^verbatim>\<open>strconv\<close> (decimal integers), as Go 1.19 documents them.
\<close>

section \<open>encoding/binary: big-endian integers\<close>

definition BigEndian_PutUint64 :: "u64 \<Rightarrow> bytes" where
  "BigEndian_PutUint64 v =
     [ucast (drop_bit 56 v), ucast (drop_bit 48 v), ucast (drop_bit 40 v), ucast (drop_bit 32 v),
      ucast (drop_bit 24 v), ucast (drop_bit 16 v), ucast (drop_bit 8 v), ucast v]"

definition BigEndian_Uint64 :: "bytes \<Rightarrow> u64" where
  "BigEndian_Uint64 b =
     ucast (b ! 7) OR push_bit 8 (ucast (b ! 6)) OR push_bit 16 (ucast (b ! 5)) OR
     push_bit 24 (ucast (b ! 4)) OR push_bit 32 (ucast (b ! 3)) OR push_bit 40 (ucast (b ! 2)) OR
     push_bit 48 (ucast (b ! 1)) OR push_bit 56 (ucast (b ! 0))"

lemma length_PutUint64 [simp]: "length (BigEndian_PutUint64 v) = 8"
  by (simp add: BigEndian_PutUint64_def)

lemma ucast_drop_bit_byte:
  "(ucast (drop_bit n (v :: u64)) :: byte) = word_of_nat (unat v div 2 ^ n)"
  by (metis drop_bit_eq_div of_nat_unat unat_drop_bit_eq)

lemma PutUint64_be_bytes: "BigEndian_PutUint64 v = be_bytes 8 (unat v)"
proof -
  have eight: "(8::nat) = Suc (Suc (Suc (Suc (Suc (Suc (Suc (Suc 0)))))))"
    by simp
  have "be_bytes 8 (unat v) = map (\<lambda>k. word_of_nat (unat v div 2 ^ k)) [56, 48, 40, 32, 24, 16, 8, 0]"
    unfolding eight by simp
  also have "\<dots> = BigEndian_PutUint64 v"
    by (simp only: list.map ucast_drop_bit_byte [symmetric] BigEndian_PutUint64_def drop_bit_0 id_apply)
  finally show ?thesis ..
qed

lemma be_val_PutUint64 [simp]: "be_val (BigEndian_PutUint64 v) = unat v"
  using unsigned_less [of v, where 'a = nat]
  by (simp add: PutUint64_be_bytes be_val_be_bytes)

lemma PutUint64_less_iff: "BigEndian_PutUint64 v < BigEndian_PutUint64 w \<longleftrightarrow> v < w"
  by (simp add: be_val_less_iff word_less_nat_alt)

text \<open>
  Reading bytes into an accumulator, \<^verbatim>\<open>v = (v << 8) | uint64(c)\<close>, computes the big-endian
  value; \<^verbatim>\<open>BigEndian.Uint64\<close> is the eight-byte instance.
\<close>

definition shl8_or :: "u64 \<Rightarrow> byte \<Rightarrow> u64" where
  "shl8_or v c = push_bit 8 v OR ucast c"

lemma shl8_or_eq: "shl8_or v c = v * 256 + ucast c"
proof -
  have "push_bit 8 v AND (ucast c :: u64) = 0"
    by (rule bit_word_eqI) (auto simp: bit_simps dest: bit_imp_le_length)
  then have "push_bit 8 v + (ucast c :: u64) = push_bit 8 v OR ucast c"
    by (rule disjunctive_add_eq_or)
  then show ?thesis
    by (simp add: shl8_or_def push_bit_eq_mult)
qed

lemma ucast_byte_eq: "(ucast (c :: byte) :: u64) = word_of_nat (unat c)"
  by simp

lemma foldl_shl8_or: "foldl shl8_or v bs = v * 256 ^ length bs + word_of_nat (be_val bs)"
  by (induction bs arbitrary: v)
    (simp_all add: shl8_or_eq ucast_byte_eq algebra_simps del: of_nat_unat)

lemma unat_foldl_shl8_or:
  assumes "length bs \<le> 8"
  shows "unat (foldl shl8_or 0 bs) = be_val bs"
proof -
  have "be_val bs < 256 ^ length bs"
    by (rule be_val_less)
  also have "\<dots> \<le> 256 ^ 8"
    using assms by (rule power_increasing) simp
  finally show ?thesis
    by (simp add: foldl_shl8_or unat_of_nat)
qed

lemma Uint64_foldl:
  assumes "length b = 8"
  shows "BigEndian_Uint64 b = foldl shl8_or 0 b"
proof -
  obtain b0 b1 b2 b3 b4 b5 b6 b7 where b: "b = [b0, b1, b2, b3, b4, b5, b6, b7]"
    using assms by (auto simp: length_Suc_conv numeral_eq_Suc)
  show ?thesis
    by (simp add: b BigEndian_Uint64_def shl8_or_def push_bit_or ac_simps)
qed

lemma Uint64_append: "length b = 8 \<Longrightarrow> BigEndian_Uint64 (b @ rest) = BigEndian_Uint64 b"
  by (simp add: BigEndian_Uint64_def nth_append)

lemma Uint64_take: "8 \<le> length b \<Longrightarrow> BigEndian_Uint64 (take 8 b) = BigEndian_Uint64 b"
  by (simp add: BigEndian_Uint64_def)

lemma unat_Uint64: "length b = 8 \<Longrightarrow> unat (BigEndian_Uint64 b) = be_val b"
  by (simp add: Uint64_foldl unat_foldl_shl8_or)

lemma Uint64_PutUint64 [simp]: "BigEndian_Uint64 (BigEndian_PutUint64 v @ rest) = v"
  by (simp add: Uint64_append word_unat_eq_iff unat_Uint64)

lemma Uint64_PutUint64_nil [simp]: "BigEndian_Uint64 (BigEndian_PutUint64 v) = v"
  using Uint64_PutUint64 [of v "[]"] by simp

lemma PutUint64_Uint64 [simp]: "length b = 8 \<Longrightarrow> BigEndian_PutUint64 (BigEndian_Uint64 b) = b"
  using be_bytes_be_val [of b] by (simp add: PutUint64_be_bytes unat_Uint64)

section \<open>bytes\<close>

definition bytes_Compare :: "bytes \<Rightarrow> bytes \<Rightarrow> int" where
  "bytes_Compare a b = (if a = b then 0 else if a < b then -1 else 1)"

definition bytes_HasPrefix :: "bytes \<Rightarrow> bytes \<Rightarrow> bool" where
  "bytes_HasPrefix s p \<longleftrightarrow> length p \<le> length s \<and> take (length p) s = p"

lemma bytes_HasPrefix_iff: "bytes_HasPrefix s p \<longleftrightarrow> (\<exists>r. s = p @ r)"
proof
  assume "bytes_HasPrefix s p"
  then have "s = p @ drop (length p) s"
    by (metis append_take_drop_id bytes_HasPrefix_def)
  then show "\<exists>r. s = p @ r" ..
qed (auto simp: bytes_HasPrefix_def)

lemma bytes_Compare_0 [simp]: "bytes_Compare a b = 0 \<longleftrightarrow> a = b"
  by (simp add: bytes_Compare_def)

lemma bytes_Compare_neg [simp]: "bytes_Compare a b < 0 \<longleftrightarrow> a < b"
  by (auto simp: bytes_Compare_def)

lemma bytes_Compare_pos [simp]: "0 < bytes_Compare a b \<longleftrightarrow> b < a"
  by (auto simp: bytes_Compare_def)

section \<open>encoding/binary: varints\<close>

definition MaxVarintLen64 :: nat where "MaxVarintLen64 = 10"

function PutUvarint :: "u64 \<Rightarrow> bytes" where
  "PutUvarint x =
     (if 0x80 \<le> x then (ucast x OR 0x80) # PutUvarint (drop_bit 7 x) else [ucast x])"
  by pat_completeness auto
termination
proof (relation "measure unat")
  fix x :: u64 assume "0x80 \<le> x"
  then have "0 < unat x"
    by (simp add: word_le_nat_alt)
  moreover have "unat (drop_bit 7 x) = unat x div 2 ^ 7"
    using unat_drop_bit_eq [of 7 x] by (simp only: drop_bit_eq_div [of 7 "unat x"])
  ultimately show "(drop_bit 7 x, x) \<in> measure unat"
    by (simp only: in_measure) simp
qed simp

declare PutUvarint.simps [simp del]

text \<open>
  \<^verbatim>\<open>Uvarint\<close> returns the value and the number of bytes read: positive on success,
  \<open>0\<close> when the buffer is too short, negative on overflow.
\<close>

fun Uvarint_loop :: "nat \<Rightarrow> u64 \<Rightarrow> nat \<Rightarrow> bytes \<Rightarrow> u64 \<times> int" where
  "Uvarint_loop i x s [] = (0, 0)"
| "Uvarint_loop i x s (b # bs) =
     (if i = MaxVarintLen64 then (0, - int (i + 1))
      else if b < 0x80 then
        (if i = MaxVarintLen64 - 1 \<and> b > 1 then (0, - int (i + 1))
         else (x OR push_bit s (ucast b), int (i + 1)))
      else Uvarint_loop (i + 1) (x OR push_bit s (ucast (b AND 0x7f))) (s + 7) bs)"

definition Uvarint :: "bytes \<Rightarrow> u64 \<times> int" where
  "Uvarint b = Uvarint_loop 0 0 0 b"

definition PutVarint :: "i64 \<Rightarrow> bytes" where
  "PutVarint x = PutUvarint (if sint x < 0 then NOT (push_bit 1 x) else push_bit 1 x)"

definition Varint :: "bytes \<Rightarrow> i64 \<times> int" where
  "Varint b = (case Uvarint b of (ux, n) \<Rightarrow>
     (if ux AND 1 \<noteq> 0 then NOT (drop_bit 1 ux) else drop_bit 1 ux, n))"

end
