(* ===== verification/Mem_Comparable.thy ===== *)
theory Mem_Comparable
  imports Go_Std
begin

text \<open>
  The contract of the memcomparable encodings of \<^verbatim>\<open>util/codec\<close>: decoding what was encoded
  gives the value and the bytes behind it, and comparing encodings (whatever follows them)
  compares the values. Keys of the storage layer are concatenations of such encodings;
  the contract of a pair follows from the contracts of its parts.
\<close>

datatype codec_error =
    InsufficientBytes
  | LargerThan64Bits
  | InvalidBytes
  | InvalidMarker bytes
  | InvalidPadding bytes
  | InvalidLength i64
  | InvalidEncodedKey
  | InvalidKeyLength int nat
  | InvalidFlag byte
  | BadNumber
  | InvalidJSON
  | IndexOutOfRange

type_synonym 'a decoded = "codec_error + bytes \<times> 'a"

locale mem_comparable =
  fixes enc :: "'a \<Rightarrow> bytes"
    and dec :: "bytes \<Rightarrow> 'a decoded"
    and lt :: "'a \<Rightarrow> 'a \<Rightarrow> bool"
  assumes dec_enc: "dec (enc x @ rest) = Inr (rest, x)"
    and enc_mono: "lt x y \<Longrightarrow> enc x @ r < enc y @ s"
    and lt_total: "x \<noteq> y \<Longrightarrow> lt x y \<or> lt y x"
begin

lemma enc_append_inject: "enc x @ r = enc y @ s \<longleftrightarrow> x = y \<and> r = s"
proof
  assume eq: "enc x @ r = enc y @ s"
  have "Inr (r, x) = (Inr (s, y) :: 'a decoded)"
    unfolding dec_enc [symmetric] eq ..
  then show "x = y \<and> r = s" by simp
qed simp

lemma enc_inject: "enc x = enc y \<longleftrightarrow> x = y"
  using enc_append_inject [of x "[]" y "[]"] by simp

lemma lt_irrefl: "\<not> lt x x"
  using enc_mono [of x x "[]" "[]"] by auto

lemma enc_less_iff: "enc x @ r < enc y @ s \<longleftrightarrow> lt x y \<or> x = y \<and> r < s"
proof (cases "x = y")
  case True
  then show ?thesis using lt_irrefl by auto
next
  case False
  then show ?thesis
    using lt_total [OF False] enc_mono [of x y r s] enc_mono [of y x s r] by fastforce
qed

lemma enc_order: "enc x < enc y \<longleftrightarrow> lt x y"
  using enc_less_iff [of x "[]" y "[]"] by auto

lemma enc_prefix_free: "enc x = enc y @ r \<Longrightarrow> x = y \<and> r = []"
  using enc_append_inject [of x "[]" y r] by auto

text \<open>Complementing every byte reverses the order.\<close>

lemma complement_mono:
  assumes "lt y x"
  shows "map (\<lambda>b. NOT b) (enc x) @ r < map (\<lambda>b. NOT b) (enc y) @ s"
proof -
  have "enc y < enc x"
    using enc_mono [OF assms, of "[]" "[]"] by simp
  moreover have "\<nexists>t. enc x = enc y @ t"
    using enc_prefix_free [of x y] assms lt_irrefl by auto
  ultimately obtain p a b xs ys where "enc y = p @ a # xs" "enc x = p @ b # ys" "a < b"
    using less_first_diff by blast
  then show ?thesis by simp
qed

lemma lt_asym: "lt x y \<Longrightarrow> \<not> lt y x"
  using enc_mono [of x y "[]" "[]"] enc_mono [of y x "[]" "[]"] by auto

lemma lt_trans: "lt x y \<Longrightarrow> lt y z \<Longrightarrow> lt x z"
  by (metis enc_order order.strict_trans)

end

definition enc_pair :: "('a \<Rightarrow> bytes) \<Rightarrow> ('b \<Rightarrow> bytes) \<Rightarrow> 'a \<times> 'b \<Rightarrow> bytes" where
  "enc_pair ea eb p = ea (fst p) @ eb (snd p)"

definition dec_pair ::
    "(bytes \<Rightarrow> 'a decoded) \<Rightarrow> (bytes \<Rightarrow> 'b decoded) \<Rightarrow> bytes \<Rightarrow> ('a \<times> 'b) decoded" where
  "dec_pair da db b =
     res_bind (da b) (\<lambda>(b', x). res_bind (db b') (\<lambda>(b'', y). Inr (b'', (x, y))))"

definition lt_pair ::
    "('a \<Rightarrow> 'a \<Rightarrow> bool) \<Rightarrow> ('b \<Rightarrow> 'b \<Rightarrow> bool) \<Rightarrow> 'a \<times> 'b \<Rightarrow> 'a \<times> 'b \<Rightarrow> bool" where
  "lt_pair la lb p q \<longleftrightarrow> la (fst p) (fst q) \<or> fst p = fst q \<and> lb (snd p) (snd q)"

locale mem_comparable_pair =
  fst_part: mem_comparable ea da la + snd_part: mem_comparable eb db lb
  for ea :: "'a \<Rightarrow> bytes" and da :: "bytes \<Rightarrow> 'a decoded" and la
    and eb :: "'b \<Rightarrow> bytes" and db :: "bytes \<Rightarrow> 'b decoded" and lb
begin

lemma pair_contract: "mem_comparable (enc_pair ea eb) (dec_pair da db) (lt_pair la lb)"
proof
  fix x :: "'a \<times> 'b" and rest
  show "dec_pair da db (enc_pair ea eb x @ rest) = Inr (rest, x)"
    by (simp add: dec_pair_def enc_pair_def fst_part.dec_enc snd_part.dec_enc)
next
  fix x y :: "'a \<times> 'b" and r s
  show "lt_pair la lb x y \<Longrightarrow> enc_pair ea eb x @ r < enc_pair ea eb y @ s"
    by (auto simp: lt_pair_def enc_pair_def fst_part.enc_mono snd_part.enc_mono)
next
  fix x y :: "'a \<times> 'b"
  show "x \<noteq> y \<Longrightarrow> lt_pair la lb x y \<or> lt_pair la lb y x"
    using fst_part.lt_total snd_part.lt_total by (auto simp: lt_pair_def prod_eq_iff)
qed

end

sublocale mem_comparable_pair \<subseteq> pair: mem_comparable "enc_pair ea eb" "dec_pair da db" "lt_pair la lb"
  by (rule pair_contract)

end
