(* ===== verification/Codec_Number.thy ===== *)
theory Codec_Number
  imports Mem_Comparable
begin

text \<open>
  \<^verbatim>\<open>util/codec/number.go\<close>: fixed-width and variable-width integers, memcomparable and not.
  A function that appends to a slice \<^verbatim>\<open>b\<close> takes the slice and returns the longer one.
\<close>

section \<open>Fixed width\<close>

definition signMask :: u64 where "signMask = 0x8000000000000000"

definition EncodeIntToCmpUint :: "i64 \<Rightarrow> u64" where
  "EncodeIntToCmpUint v = v XOR signMask"

definition DecodeCmpUintToInt :: "u64 \<Rightarrow> i64" where
  "DecodeCmpUintToInt u = u XOR signMask"

definition EncodeInt :: "bytes \<Rightarrow> i64 \<Rightarrow> bytes" where
  "EncodeInt b v = (let u = EncodeIntToCmpUint v in b @ BigEndian_PutUint64 u)"

definition EncodeIntDesc :: "bytes \<Rightarrow> i64 \<Rightarrow> bytes" where
  "EncodeIntDesc b v = (let u = EncodeIntToCmpUint v in b @ BigEndian_PutUint64 (NOT u))"

definition DecodeInt :: "bytes \<Rightarrow> i64 decoded" where
  "DecodeInt b =
     (if length b < 8 then Inl InsufficientBytes
      else let u = BigEndian_Uint64 (take 8 b); v = DecodeCmpUintToInt u
           in Inr (drop 8 b, v))"

definition DecodeIntDesc :: "bytes \<Rightarrow> i64 decoded" where
  "DecodeIntDesc b =
     (if length b < 8 then Inl InsufficientBytes
      else let u = BigEndian_Uint64 (take 8 b); v = DecodeCmpUintToInt (NOT u)
           in Inr (drop 8 b, v))"

definition EncodeUint :: "bytes \<Rightarrow> u64 \<Rightarrow> bytes" where
  "EncodeUint b v = b @ BigEndian_PutUint64 v"

definition EncodeUintDesc :: "bytes \<Rightarrow> u64 \<Rightarrow> bytes" where
  "EncodeUintDesc b v = b @ BigEndian_PutUint64 (NOT v)"

definition DecodeUint :: "bytes \<Rightarrow> u64 decoded" where
  "DecodeUint b =
     (if length b < 8 then Inl InsufficientBytes
      else Inr (drop 8 b, BigEndian_Uint64 (take 8 b)))"

definition DecodeUintDesc :: "bytes \<Rightarrow> u64 decoded" where
  "DecodeUintDesc b =
     (if length b < 8 then Inl InsufficientBytes
      else let v = BigEndian_Uint64 (take 8 b) in Inr (drop 8 b, NOT v))"

lemmas fixed_defs [codec_simps] =
  EncodeInt_def EncodeIntDesc_def DecodeInt_def DecodeIntDesc_def
  EncodeUint_def EncodeUintDesc_def DecodeUint_def DecodeUintDesc_def

subsection \<open>The sign flip\<close>

lemma signMask_double: "signMask + signMask = 0"
  by (simp add: signMask_def)

lemma bit_signMask: "bit signMask n \<longleftrightarrow> n = 63"
proof -
  have m: "signMask = 2 ^ 63"
    by (simp add: signMask_def)
  show ?thesis
    unfolding m bit_exp_iff by (auto simp: possible_bit_word)
qed

lemma XOR_signMask: "v XOR signMask = v + signMask"
proof (cases "bit v 63")
  case False
  then have "v AND signMask = 0"
    by (intro bit_word_eqI) (auto simp: bit_simps bit_signMask)
  then show ?thesis by (simp add: disjunctive_add_eq_xor)
next
  case True
  let ?w = "v XOR signMask"
  have "?w AND signMask = 0"
    using True by (intro bit_word_eqI) (auto simp: bit_simps bit_signMask)
  then have "?w + signMask = ?w XOR signMask"
    by (rule disjunctive_add_eq_xor)
  then have "?w + signMask = v"
    by (simp add: xor.assoc)
  then have "v + signMask = ?w + (signMask + signMask)"
    by (simp only: add.assoc [symmetric])
  then show ?thesis
    by (simp only: signMask_double add_0_right)
qed

lemma uint_EncodeIntToCmpUint: "uint (EncodeIntToCmpUint v) = sint v + 2 ^ 63"
proof -
  have "EncodeIntToCmpUint v = word_of_int (sint v + 2 ^ 63)"
    unfolding EncodeIntToCmpUint_def XOR_signMask by (simp add: signMask_def)
  moreover have "0 \<le> sint v + 2 ^ 63" "sint v + 2 ^ 63 < 2 ^ LENGTH(64)"
    using sint_ge [of v] sint_lt [of v] by simp_all
  ultimately show ?thesis
    by (simp only: uint_word_of_int_eq take_bit_int_eq_self)
qed

lemma DecodeCmpUintToInt_Encode [simp]: "DecodeCmpUintToInt (EncodeIntToCmpUint v) = v"
  by (simp add: DecodeCmpUintToInt_def EncodeIntToCmpUint_def xor.assoc)

lemma EncodeIntToCmpUint_Decode [simp]: "EncodeIntToCmpUint (DecodeCmpUintToInt u) = u"
  by (simp add: DecodeCmpUintToInt_def EncodeIntToCmpUint_def xor.assoc)

lemma EncodeIntToCmpUint_less_iff:
  "EncodeIntToCmpUint a < EncodeIntToCmpUint b \<longleftrightarrow> sint a < sint b"
  by (simp add: word_less_def uint_EncodeIntToCmpUint)

lemma fixed_append:
  "EncodeInt b v = b @ EncodeInt [] v" "EncodeIntDesc b v = b @ EncodeIntDesc [] v"
  "EncodeUint b u = b @ EncodeUint [] u" "EncodeUintDesc b u = b @ EncodeUintDesc [] u"
  by (simp_all add: codec_simps Let_def)

lemma length_fixed [simp]:
  "length (EncodeInt b v) = length b + 8" "length (EncodeIntDesc b v) = length b + 8"
  "length (EncodeUint b u) = length b + 8" "length (EncodeUintDesc b u) = length b + 8"
  by (simp_all add: codec_simps Let_def)

lemma PutUint64_append_mono:
  "v < w \<Longrightarrow> BigEndian_PutUint64 v @ r < BigEndian_PutUint64 w @ s"
  by (simp add: append_less_append_eq_length PutUint64_less_iff)

interpretation codec_int: mem_comparable "EncodeInt []" DecodeInt "\<lambda>a b. sint a < sint b"
  by unfold_locales
    (auto simp: codec_simps Let_def EncodeIntToCmpUint_less_iff
      intro: PutUint64_append_mono dest: sint_neqE)

interpretation codec_int_desc: mem_comparable "EncodeIntDesc []" DecodeIntDesc "\<lambda>a b. sint b < sint a"
  by unfold_locales
    (auto simp: codec_simps Let_def EncodeIntToCmpUint_less_iff
      intro: PutUint64_append_mono dest: sint_neqE)

interpretation codec_uint: mem_comparable "EncodeUint []" DecodeUint "(<)"
  by unfold_locales (auto simp: codec_simps Let_def intro: PutUint64_append_mono)

interpretation codec_uint_desc: mem_comparable "EncodeUintDesc []" DecodeUintDesc "\<lambda>a b. b < a"
  by unfold_locales (auto simp: codec_simps Let_def intro: PutUint64_append_mono)

section \<open>Properties\<close>

text \<open>
  C2: \<^verbatim>\<open>DecodeInt\<close> reads back what \<^verbatim>\<open>EncodeInt\<close> appended and returns the bytes
  behind it, for every int64, and the byte order of the encodings (whatever follows them)
  is the signed order of the values, ties being decided by what follows.
\<close>

theorem int_codec_correct:
  "(EncodeInt b v = b @ EncodeInt [] v) \<and>
   (DecodeInt (EncodeInt [] v @ r) = Inr (r, v)) \<and>
   (EncodeInt [] v @ r < EncodeInt [] w @ s \<longleftrightarrow> sint v < sint w \<or> v = w \<and> r < s)"
  by (intro conjI) (fact fixed_append(1) codec_int.dec_enc codec_int.enc_less_iff)+

text \<open>
  C4: the descending uint64 encoding, by which versions of a key are
  ordered newest first: \<^verbatim>\<open>DecodeUintDesc\<close> inverts \<^verbatim>\<open>EncodeUintDesc\<close>, a larger value has the
  smaller encoding, and a slice of fewer than eight bytes is refused by all four decoders.
\<close>

theorem uint_desc_codec_correct:
  "(DecodeUintDesc (EncodeUintDesc [] v @ r) = Inr (r, v)) \<and>
   (EncodeUintDesc [] v @ r < EncodeUintDesc [] w @ s \<longleftrightarrow> w < v \<or> v = w \<and> r < s) \<and>
   (length b < 8 \<longleftrightarrow> DecodeUintDesc b = Inl InsufficientBytes) \<and>
   (length b < 8 \<longleftrightarrow> DecodeUint b = Inl InsufficientBytes) \<and>
   (length b < 8 \<longleftrightarrow> DecodeInt b = Inl InsufficientBytes) \<and>
   (length b < 8 \<longleftrightarrow> DecodeIntDesc b = Inl InsufficientBytes)"
  by (intro conjI) (fact codec_uint_desc.dec_enc codec_uint_desc.enc_less_iff
    | simp add: DecodeUintDesc_def DecodeUint_def DecodeInt_def DecodeIntDesc_def Let_def)+

end
