(* ===== verification/Codec_Varint.thy ===== *)
theory Codec_Varint
  imports Codec_Number
begin

text \<open>
  The variable-width integers of \<^verbatim>\<open>util/codec/number.go\<close>: the standard library's varints,
  which are not memcomparable, and the memcomparable ones with a length tag in front.
\<close>

section \<open>Varints\<close>

definition EncodeVarint :: "bytes \<Rightarrow> i64 \<Rightarrow> bytes" where
  "EncodeVarint b v = b @ PutVarint v"

definition DecodeVarint :: "bytes \<Rightarrow> i64 decoded" where
  "DecodeVarint b =
     (case Varint b of (v, n) \<Rightarrow>
        if 0 < n then Inr (drop (nat n) b, v)
        else if n < 0 then Inl LargerThan64Bits
        else Inl InsufficientBytes)"

definition EncodeUvarint :: "bytes \<Rightarrow> u64 \<Rightarrow> bytes" where
  "EncodeUvarint b v = b @ PutUvarint v"

definition DecodeUvarint :: "bytes \<Rightarrow> u64 decoded" where
  "DecodeUvarint b =
     (case Uvarint b of (v, n) \<Rightarrow>
        if 0 < n then Inr (drop (nat n) b, v)
        else if n < 0 then Inl LargerThan64Bits
        else Inl InsufficientBytes)"

lemma sint_less_0_iff_bit: "sint (v :: i64) < 0 \<longleftrightarrow> bit v 63"
  by (simp add: sint_uint bit_uint_iff)

lemma low7_ucast: "(ucast ((ucast y OR 0x80 :: byte) AND 0x7f) :: u64) = take_bit 7 y"
proof (rule bit_word_eqI)
  fix n assume "n < LENGTH(64)"
  have m: "(0x7f :: byte) = mask 7" "(0x80 :: byte) = 2 ^ 7"
    by (simp_all add: mask_eq_exp_minus_1)
  show "bit (ucast ((ucast y OR 0x80 :: byte) AND 0x7f) :: u64) n \<longleftrightarrow> bit (take_bit 7 y) n"
    unfolding m by (simp only: bit_simps bit_exp_iff possible_bit_word) auto
qed

lemma cont_byte_not_less: "\<not> (ucast y OR 0x80 :: byte) < 0x80"
  using le_word_or1 [of "0x80 :: byte" "ucast y"] by (simp only: not_less)

lemma ucast_small_less:
  assumes "y < (0x80 :: u64)"
  shows "(ucast y :: byte) < 0x80" "unat (ucast y :: byte) = unat y" "(ucast (ucast y :: byte) :: u64) = y"
proof -
  have "unat y < 128"
    using assms by (simp add: word_less_nat_alt)
  then have "take_bit LENGTH(8) (unat y) = unat y"
    by (simp only: take_bit_nat_eq_self_iff) simp
  then show u: "unat (ucast y :: byte) = unat y"
    by (simp only: unsigned_ucast_eq)
  have "unat (ucast y :: byte) < unat (0x80 :: byte)"
    unfolding u using \<open>unat y < 128\<close> by simp
  then show "(ucast y :: byte) < 0x80"
    by (simp only: word_less_nat_alt)
  show "(ucast (ucast y :: byte) :: u64) = y"
    using arg_cong [OF u, of "word_of_nat :: nat \<Rightarrow> u64"] by (simp only: of_nat_unat ucast_id)
qed

lemma split_low7: "take_bit 7 y OR push_bit 7 (drop_bit 7 y) = (y :: u64)"
  by (rule bit_word_eqI, rename_tac n, case_tac "n < 7") (auto simp: bit_simps)

lemma shift_low7:
  "push_bit n (take_bit 7 y) OR push_bit (n + 7) (drop_bit 7 y) = push_bit n (y :: u64)"
proof -
  have "push_bit n (take_bit 7 y OR push_bit 7 (drop_bit 7 y)) =
      push_bit n (take_bit 7 y) OR push_bit (n + 7) (drop_bit 7 y)"
    by (simp only: push_bit_or push_bit_push_bit)
  then show ?thesis
    by (simp only: split_low7)
qed

lemma unat_drop7: "unat (drop_bit 7 (y :: u64)) = unat y div 128"
  using unat_drop_bit_eq [of 7 y] drop_bit_eq_div [of 7 "unat y"] by simp

lemma PutUvarint_long: "0x80 \<le> y \<Longrightarrow> PutUvarint y = (ucast y OR 0x80) # PutUvarint (drop_bit 7 y)"
  by (subst PutUvarint.simps) (simp only: if_True)

lemma PutUvarint_short: "y < 0x80 \<Longrightarrow> PutUvarint y = [ucast y]"
  by (subst PutUvarint.simps) (simp only: not_le [symmetric] if_False)

lemma drop7_bound:
  assumes "128 \<le> unat y" "unat (y :: u64) < 2 ^ (64 - 7 * i)"
  shows "i \<le> 8" "unat (drop_bit 7 y) < 2 ^ (64 - 7 * (i + 1))"
proof -
  show i8: "i \<le> 8"
  proof (rule ccontr)
    assume "\<not> i \<le> 8"
    then have "(2::nat) ^ (64 - 7 * i) \<le> 2 ^ 1"
      by (intro power_increasing) auto
    with assms show False by simp
  qed
  then have "64 - 7 * i = (64 - 7 * (i + 1)) + 7"
    by simp
  then have "(2::nat) ^ (64 - 7 * i) = 2 ^ (64 - 7 * (i + 1)) * 128"
    by (simp only: power_add) simp
  with assms(2) show "unat (drop_bit 7 y) < 2 ^ (64 - 7 * (i + 1))"
    by (simp only: unat_drop7 less_mult_imp_div_less)
qed

lemma Uvarint_loop_PutUvarint:
  "\<lbrakk>i \<le> 9; unat y < 2 ^ (64 - 7 * i); s = 7 * i\<rbrakk> \<Longrightarrow>
   Uvarint_loop i x s (PutUvarint y @ rest) =
     (x OR push_bit s y, int (i + length (PutUvarint y)))"
proof (induction y arbitrary: i x s rule: PutUvarint.induct)
  case (1 y)
  show ?case
  proof (cases "0x80 \<le> y")
    case True
    then have y128: "128 \<le> unat y"
      by (simp add: word_le_nat_alt)
    note bnd = drop7_bound [OF y128 "1.prems"(2)]
    let ?x = "x OR push_bit s (take_bit 7 y)"
    have "Uvarint_loop i x s (PutUvarint y @ rest) =
        Uvarint_loop (i + 1) ?x (s + 7) (PutUvarint (drop_bit 7 y) @ rest)"
      using bnd(1) cont_byte_not_less [of y]
      by (simp add: PutUvarint_long [OF True] low7_ucast MaxVarintLen64_def)
    also have "\<dots> = (?x OR push_bit (s + 7) (drop_bit 7 y), int (i + 1 + length (PutUvarint (drop_bit 7 y))))"
      using bnd "1.prems"(3) by (intro "1.IH" [OF True]) simp_all
    also have "\<dots> = (x OR push_bit s y, int (i + length (PutUvarint y)))"
      by (simp add: or.assoc shift_low7 PutUvarint_long [OF True])
    finally show ?thesis .
  next
    case False
    then have y: "y < 0x80" by simp
    have "\<not> (i = 9 \<and> (1 :: byte) < ucast y)"
      using "1.prems"(2) ucast_small_less(2) [OF y] by (auto simp: word_less_nat_alt)
    then show ?thesis
      using "1.prems"(1) ucast_small_less(1,3) [OF y]
      by (auto simp: MaxVarintLen64_def PutUvarint_short [OF y])
  qed
qed

lemma length_PutUvarint_pos: "0 < length (PutUvarint y)"
  by (subst PutUvarint.simps) simp

lemma Uvarint_PutUvarint: "Uvarint (PutUvarint y @ rest) = (y, int (length (PutUvarint y)))"
  using Uvarint_loop_PutUvarint [of 0 y 0 0 rest] unsigned_less [of y, where 'a = nat]
  by (simp add: Uvarint_def)

lemma bit_push1: "bit (push_bit 1 x) n \<longleftrightarrow> n < 64 \<and> 0 < n \<and> bit (x :: u64) (n - 1)"
  by (simp only: bit_push_bit_iff possible_bit_word) auto

lemma bit_drop1: "bit (drop_bit 1 x) n \<longleftrightarrow> bit (x :: u64) (Suc n)"
  by (simp only: bit_drop_bit_eq o_def add.commute [of 1] Suc_eq_plus1)

lemma zigzag_neg: "bit x 63 \<Longrightarrow> NOT (drop_bit 1 (NOT (push_bit 1 x))) = (x :: i64)"
  by (rule bit_word_eqI, unfold bit_not_iff bit_drop1 bit_push1 possible_bit_word)
    (auto simp: less_Suc_eq_le not_less dest: le_antisym)

lemma zigzag_pos: "\<not> bit x 63 \<Longrightarrow> drop_bit 1 (push_bit 1 x) = (x :: i64)"
  by (rule bit_word_eqI, unfold bit_drop1 bit_push1, rename_tac n, case_tac "n = 63") auto

lemma even_push1: "even (push_bit 1 (x :: u64))"
  using bit_push1 [of x 0] by (simp add: bit_0)

lemma Varint_PutVarint: "Varint (PutVarint x @ rest) = (x, int (length (PutVarint x)))"
proof (cases "sint x < 0")
  case True
  have "odd (NOT (push_bit 1 x))"
    using even_push1 [of x] by (simp only: even_not_iff not_not)
  then have "NOT (push_bit 1 x) AND 1 \<noteq> 0"
    by (simp only: and_one_eq odd_iff_mod_2_eq_one) simp
  then show ?thesis
    using True zigzag_neg [of x]
    by (simp only: Varint_def PutVarint_def Uvarint_PutUvarint sint_less_0_iff_bit if_True
        prod.case not_False_eq_True)
next
  case False
  have "push_bit 1 x AND 1 = 0"
    using even_push1 [of x] by (simp only: and_one_eq even_iff_mod_2_eq_zero)
  then show ?thesis
    using False zigzag_pos [of x]
    by (simp only: Varint_def PutVarint_def Uvarint_PutUvarint sint_less_0_iff_bit if_False
        prod.case not_True_eq_False simp_thms)
qed

lemma length_PutVarint_pos: "0 < length (PutVarint v)"
  by (simp only: PutVarint_def length_PutUvarint_pos)

lemma DecodeUvarint_Encode: "DecodeUvarint (EncodeUvarint [] v @ rest) = Inr (rest, v)"
  using length_PutUvarint_pos [of v]
  by (simp add: DecodeUvarint_def EncodeUvarint_def Uvarint_PutUvarint)

lemma DecodeVarint_Encode: "DecodeVarint (EncodeVarint [] v @ rest) = Inr (rest, v)"
  using length_PutVarint_pos [of v]
  by (simp add: DecodeVarint_def EncodeVarint_def Varint_PutVarint)

section \<open>Properties\<close>

text \<open>
  C7: the varint decoders read back every value their encoders append,
  signed and unsigned, with the bytes behind it as the leftover.
\<close>

theorem varint_codec_correct:
  "(DecodeVarint (EncodeVarint [] v @ rest) = Inr (rest, v)) \<and>
   (DecodeUvarint (EncodeUvarint [] u @ rest) = Inr (rest, u))"
  by (intro conjI) (fact DecodeVarint_Encode DecodeUvarint_Encode)+

end
