(* ===== verification/Codec_Comparable.thy ===== *)
theory Codec_Comparable
  imports Codec_Varint
begin

text \<open>
  The memcomparable variable-width integers of \<^verbatim>\<open>util/codec/number.go\<close>. Small non-negative
  values take one byte; every other value has a tag byte that says how many bytes follow and
  on which side of zero it lies.
\<close>

definition negativeTagEnd :: nat where "negativeTagEnd = 8"
definition positiveTagStart :: nat where "positiveTagStart = 0xff - 8"

text \<open>\<^verbatim>\<open>byte(v>>k)\<close>: the shift is arithmetic on \<^verbatim>\<open>int64\<close> and logical on \<^verbatim>\<open>uint64\<close>.\<close>

definition sar_byte :: "i64 \<Rightarrow> nat \<Rightarrow> byte" where
  "sar_byte v k = ucast (signed_drop_bit k v)"

definition shr_byte :: "u64 \<Rightarrow> nat \<Rightarrow> byte" where
  "shr_byte v k = ucast (drop_bit k v)"

definition EncodeComparableUvarint :: "bytes \<Rightarrow> u64 \<Rightarrow> bytes" where
  "EncodeComparableUvarint b v =
     (if unat v \<le> positiveTagStart - negativeTagEnd then b @ [ucast v + of_nat negativeTagEnd]
      else if v \<le> 0xff then b @ of_nat (positiveTagStart + 1) # map (shr_byte v) [0]
      else if v \<le> 0xffff then b @ of_nat (positiveTagStart + 2) # map (shr_byte v) [8, 0]
      else if v \<le> 0xffffff then b @ of_nat (positiveTagStart + 3) # map (shr_byte v) [16, 8, 0]
      else if v \<le> 0xffffffff then
        b @ of_nat (positiveTagStart + 4) # map (shr_byte v) [24, 16, 8, 0]
      else if v \<le> 0xffffffffff then
        b @ of_nat (positiveTagStart + 5) # map (shr_byte v) [32, 24, 16, 8, 0]
      else if v \<le> 0xffffffffffff then
        b @ of_nat (positiveTagStart + 6) # map (shr_byte v) [40, 32, 24, 16, 8, 0]
      else if v \<le> 0xffffffffffffff then
        b @ of_nat (positiveTagStart + 7) # map (shr_byte v) [48, 40, 32, 24, 16, 8, 0]
      else b @ of_nat (positiveTagStart + 8) # map (shr_byte v) [56, 48, 40, 32, 24, 16, 8, 0])"

definition EncodeComparableVarint :: "bytes \<Rightarrow> i64 \<Rightarrow> bytes" where
  "EncodeComparableVarint b v =
     (if sint v < 0 then
        (if sint v \<ge> -0xff then b @ of_nat (negativeTagEnd - 1) # map (sar_byte v) [0]
         else if sint v \<ge> -0xffff then b @ of_nat (negativeTagEnd - 2) # map (sar_byte v) [8, 0]
         else if sint v \<ge> -0xffffff then
           b @ of_nat (negativeTagEnd - 3) # map (sar_byte v) [16, 8, 0]
         else if sint v \<ge> -0xffffffff then
           b @ of_nat (negativeTagEnd - 4) # map (sar_byte v) [24, 16, 8, 0]
         else if sint v \<ge> -0xffffffffff then
           b @ of_nat (negativeTagEnd - 5) # map (sar_byte v) [32, 24, 16, 8, 0]
         else if sint v \<ge> -0xffffffffffff then
           b @ of_nat (negativeTagEnd - 6) # map (sar_byte v) [40, 32, 24, 16, 8, 0]
         else if sint v \<ge> -0xffffffffffffff then
           b @ of_nat (negativeTagEnd - 7) # map (sar_byte v) [48, 40, 32, 24, 16, 8, 0]
         else b @ of_nat (negativeTagEnd - 8) # map (sar_byte v) [56, 48, 40, 32, 24, 16, 8, 0])
      else EncodeComparableUvarint b v)"

definition DecodeComparableUvarint :: "bytes \<Rightarrow> u64 decoded" where
  "DecodeComparableUvarint b =
     (case b of
        [] \<Rightarrow> Inl InsufficientBytes
      | first # b \<Rightarrow>
          if unat first < negativeTagEnd then Inl InvalidBytes
          else if unat first \<le> positiveTagStart then
            Inr (b, ucast first - of_nat negativeTagEnd)
          else let len = unat first - positiveTagStart in
            if length b < len then Inl InsufficientBytes
            else Inr (drop len b, foldl shl8_or 0 (take len b)))"

text \<open>
  \<^verbatim>\<open>DecodeComparableVarint\<close> returns the slice it was given, not the rest of it, when the value
  fits one byte: the slice is advanced only after that branch.
\<close>

definition MaxInt64 :: int where "MaxInt64 = 2 ^ 63 - 1"

definition DecodeComparableVarint :: "bytes \<Rightarrow> i64 decoded" where
  "DecodeComparableVarint b =
     (case b of
        [] \<Rightarrow> Inl InsufficientBytes
      | first # b' \<Rightarrow>
          if negativeTagEnd \<le> unat first \<and> unat first \<le> positiveTagStart then
            Inr (b, ucast first - of_nat negativeTagEnd)
          else
            let len = (if unat first < negativeTagEnd then negativeTagEnd - unat first
                       else unat first - positiveTagStart);
                v0 = (if unat first < negativeTagEnd then (-1 :: u64) else 0)
            in if length b' < len then Inl InsufficientBytes
               else let v = foldl shl8_or v0 (take len b') in
                 if positiveTagStart < unat first \<and> uint v > MaxInt64 then Inl InvalidBytes
                 else if unat first < negativeTagEnd \<and> uint v \<le> MaxInt64 then Inl InvalidBytes
                 else Inr (drop len b', v))"

section \<open>Byte lengths\<close>

definition cmp_len :: "nat \<Rightarrow> nat" where
  "cmp_len a =
     (if a \<le> 0xff then 1 else if a \<le> 0xffff then 2 else if a \<le> 0xffffff then 3
      else if a \<le> 0xffffffff then 4 else if a \<le> 0xffffffffff then 5
      else if a \<le> 0xffffffffffff then 6 else if a \<le> 0xffffffffffffff then 7 else 8)"

lemma cmp_len_bounds: "1 \<le> cmp_len a" "cmp_len a \<le> 8"
  by (simp_all add: cmp_len_def)

lemma cmp_len_less: "a < 2 ^ 64 \<Longrightarrow> a < 256 ^ cmp_len a"
  by (simp add: cmp_len_def)

lemma cmp_len_mono: "a \<le> b \<Longrightarrow> cmp_len a \<le> cmp_len b"
  by (simp add: cmp_len_def)

lemma shr_byte_eq: "shr_byte v k = word_of_nat (unat v div 2 ^ k)"
  by (simp only: shr_byte_def ucast_drop_bit_byte)

lemma sar_byte_eq: "k \<le> 56 \<Longrightarrow> sar_byte v k = shr_byte v k"
  unfolding sar_byte_def shr_byte_def
  by (rule bit_word_eqI) (auto simp: bit_simps bit_signed_drop_bit_iff not_le min_def)

lemma be_bytes_shr:
  "be_bytes 1 (unat v) = map (shr_byte v) [0]"
  "be_bytes 2 (unat v) = map (shr_byte v) [8, 0]"
  "be_bytes 3 (unat v) = map (shr_byte v) [16, 8, 0]"
  "be_bytes 4 (unat v) = map (shr_byte v) [24, 16, 8, 0]"
  "be_bytes 5 (unat v) = map (shr_byte v) [32, 24, 16, 8, 0]"
  "be_bytes 6 (unat v) = map (shr_byte v) [40, 32, 24, 16, 8, 0]"
  "be_bytes 7 (unat v) = map (shr_byte v) [48, 40, 32, 24, 16, 8, 0]"
  "be_bytes 8 (unat v) = map (shr_byte v) [56, 48, 40, 32, 24, 16, 8, 0]"
  by (simp_all add: shr_byte_eq be_bytes_numeral be_bytes_1 del: of_nat_unat One_nat_def)

section \<open>The unsigned encoding\<close>

lemmas tag_defs = negativeTagEnd_def positiveTagStart_def

lemma EncodeComparableUvarint_eq:
  "EncodeComparableUvarint b v = b @
     (if unat v \<le> 239 then [word_of_nat (unat v + 8)]
      else word_of_nat (247 + cmp_len (unat v)) # be_bytes (cmp_len (unat v)) (unat v))"
  unfolding EncodeComparableUvarint_def tag_defs cmp_len_def
  by (simp add: word_le_nat_alt be_bytes_shr del: of_nat_unat One_nat_def) simp

lemma EncodeComparableUvarint_append:
  "EncodeComparableUvarint b v = b @ EncodeComparableUvarint [] v"
  by (simp add: EncodeComparableUvarint_eq)

lemma unat_tag [simp]:
  "n \<le> 8 \<Longrightarrow> unat (word_of_nat (247 + n) :: byte) = 247 + n"
  "a \<le> 239 \<Longrightarrow> unat (word_of_nat (a + 8) :: byte) = a + 8"
  "unat (word_of_nat (8 - n) :: byte) = 8 - n"
  by (simp_all only: unat_of_nat len_of_numeral_defs) simp_all

lemma DecodeComparableUvarint_Encode:
  "DecodeComparableUvarint (EncodeComparableUvarint [] v @ rest) = Inr (rest, v)"
proof (cases "unat v \<le> 239")
  case True
  have "(ucast (word_of_nat (unat v + 8) :: byte) :: u64) = word_of_nat (unat v + 8)"
    using unat_tag(2) [OF True] by (metis of_nat_unat)
  then show ?thesis
    using True unat_tag(2) [OF True]
    by (simp add: DecodeComparableUvarint_def EncodeComparableUvarint_eq tag_defs)
next
  case False
  let ?n = "cmp_len (unat v)"
  have n: "unat (word_of_nat (247 + ?n) :: byte) = 247 + ?n"
    using cmp_len_bounds(2) by (rule unat_tag(1))
  have "unat (foldl shl8_or 0 (be_bytes ?n (unat v))) = unat v"
    using cmp_len_less [OF unat_u64_less] cmp_len_bounds(2)
    by (simp add: unat_foldl_shl8_or be_val_be_bytes)
  then have "foldl shl8_or 0 (be_bytes ?n (unat v)) = v"
    by (simp add: word_unat_eq_iff)
  then show ?thesis
    using False n cmp_len_bounds(1) [of "unat v"]
    by (simp add: DecodeComparableUvarint_def EncodeComparableUvarint_eq tag_defs Let_def
        del: of_nat_add)
qed

lemma EncodeComparableUvarint_mono:
  assumes "v < w"
  shows "EncodeComparableUvarint [] v @ r < EncodeComparableUvarint [] w @ s"
proof -
  have vw: "unat v < unat w"
    using assms by (simp add: word_less_nat_alt)
  let ?m = "cmp_len (unat v)" and ?n = "cmp_len (unat w)"
  have mn: "?m \<le> ?n"
    using vw by (simp add: cmp_len_mono)
  consider (small) "unat v \<le> 239" | (len) "239 < unat v" "?m < ?n" | (same) "239 < unat v" "?m = ?n"
    using mn by linarith
  then show ?thesis
  proof cases
    case small
    have "(word_of_nat (unat v + 8) :: byte) < word_of_nat (if unat w \<le> 239 then unat w + 8 else 247 + ?n)"
      using small vw cmp_len_bounds [of "unat w"] unat_tag(1) [of ?n] unat_tag(2) [of "unat w"]
      by (simp add: word_less_nat_alt del: of_nat_add)
    then show ?thesis
      using small by (auto simp: EncodeComparableUvarint_eq split: if_splits)
  next
    case len
    have "(word_of_nat (247 + ?m) :: byte) < word_of_nat (247 + ?n)"
      using len cmp_len_bounds unat_tag(1)
      by (simp add: word_less_nat_alt del: of_nat_add)
    then show ?thesis
      using len vw by (simp add: EncodeComparableUvarint_eq del: of_nat_add)
  next
    case same
    have "be_bytes ?n (unat v) < be_bytes ?n (unat w)"
      using vw cmp_len_less [OF unat_u64_less, of v] cmp_len_less [OF unat_u64_less, of w] same
      by (simp add: be_bytes_less_iff)
    then show ?thesis
      using same vw
      by (simp add: EncodeComparableUvarint_eq append_less_append_eq_length del: of_nat_add)
  qed
qed

interpretation codec_cmp_uvarint:
  mem_comparable "EncodeComparableUvarint []" DecodeComparableUvarint "(<)"
  by unfold_locales
    (auto intro: DecodeComparableUvarint_Encode EncodeComparableUvarint_mono)

section \<open>The signed encoding\<close>

text \<open>The magnitude of a negative value and the bytes of its two's complement.\<close>

definition neg_mag :: "i64 \<Rightarrow> nat" where
  "neg_mag v = nat (- sint v)"

lemma neg_mag_bounds:
  assumes "sint v < 0"
  shows "0 < neg_mag v" "neg_mag v \<le> 2 ^ 63" "sint v = - int (neg_mag v)" "unat v = 2 ^ 64 - neg_mag v"
proof -
  show "0 < neg_mag v" "neg_mag v \<le> 2 ^ 63" "sint v = - int (neg_mag v)"
    using assms sint_i64_bounds(1) [of v] by (simp_all add: neg_mag_def)
  moreover have "\<not> uint v < 2 ^ 63"
  proof
    assume "uint v < 2 ^ 63"
    then have "sint v = uint v" by (simp add: sint_uint64)
    with assms uint_ge_0 [of v] show False by linarith
  qed
  ultimately have "uint v = 2 ^ 64 - int (neg_mag v)"
    using sint_uint64 [of v] by simp
  then show "unat v = 2 ^ 64 - neg_mag v"
    by (simp add: unat_eq_nat_uint nat_diff_distrib del: nat_uint_eq)
qed

lemma word_neg_mag:
  assumes "sint v < 0"
  shows "v = - word_of_nat (neg_mag v)"
proof -
  have "word_of_int (sint v) = (- word_of_nat (neg_mag v) :: i64)"
    by (subst neg_mag_bounds(3) [OF assms]) simp
  then show ?thesis by simp
qed

lemma sint_nonneg_unat: "0 \<le> sint (v :: i64) \<Longrightarrow> unat v = nat (sint v)"
  using sint_uint64 [of v] uint_u64_less [of v] by (simp add: unat_eq_nat_uint del: nat_uint_eq split: if_splits)

lemma EncodeComparableVarint_neg:
  assumes "sint v < 0"
  shows "EncodeComparableVarint b v = b @ word_of_nat (8 - cmp_len (neg_mag v)) #
     be_bytes (cmp_len (neg_mag v)) (unat v)"
  using assms neg_mag_bounds(1-3) [OF assms]
  unfolding EncodeComparableVarint_def tag_defs cmp_len_def
  by (simp add: be_bytes_shr sar_byte_eq del: of_nat_unat One_nat_def)

lemma EncodeComparableVarint_nonneg:
  "0 \<le> sint v \<Longrightarrow> EncodeComparableVarint b v = EncodeComparableUvarint b v"
  by (simp add: EncodeComparableVarint_def)

lemma neg_mag_mod:
  assumes "sint v < 0" "neg_mag v < 256 ^ n" "n \<le> 8"
  shows "unat v mod 256 ^ n = 256 ^ n - neg_mag v"
proof -
  let ?a = "neg_mag v" and ?p = "(256::nat) ^ n"
  have "?p dvd 256 ^ 8"
    using assms(3) by (rule le_imp_power_dvd)
  then obtain c where c: "256 ^ 8 = ?p * c" ..
  then have "0 < c" by (cases c) auto
  have "unat v = ?p * c - ?a"
    using neg_mag_bounds(4) [OF assms(1)] by (simp flip: c)
  also have "\<dots> = ?p * (c - 1) + (?p - ?a)"
    using \<open>0 < c\<close> assms(2) by (cases c) simp_all
  finally have "unat v mod ?p = (?p - ?a) mod ?p"
    by simp
  then show ?thesis
    using neg_mag_bounds(1) [OF assms(1)] assms(2) by simp
qed

lemma neg_mag_len:
  assumes "sint v < 0"
  shows "neg_mag v < 256 ^ cmp_len (neg_mag v)"
  using cmp_len_less [of "neg_mag v"] neg_mag_bounds(2) [OF assms] by simp

lemma foldl_neg:
  assumes "sint v < 0"
  shows "foldl shl8_or (-1) (be_bytes (cmp_len (neg_mag v)) (unat v)) = v"
proof -
  let ?n = "cmp_len (neg_mag v)" and ?a = "neg_mag v"
  have a: "?a < 256 ^ ?n"
    using assms by (rule neg_mag_len)
  have "foldl shl8_or (-1) (be_bytes ?n (unat v)) = - (256 ^ ?n) + word_of_nat (256 ^ ?n - ?a)"
    by (simp add: foldl_shl8_or be_val_be_bytes neg_mag_mod [OF assms a cmp_len_bounds(2)])
  also have "\<dots> = - word_of_nat ?a"
    using a by (simp add: of_nat_diff)
  finally show ?thesis
    using word_neg_mag [OF assms] by simp
qed

text \<open>
  What the decoder does to an encoded value: the value always comes back, the rest of the
  slice only when the encoding has a tag byte.
\<close>

lemma DecodeComparableVarint_neg:
  assumes "sint v < 0"
  shows "DecodeComparableVarint (EncodeComparableVarint [] v @ rest) = Inr (rest, v)"
proof -
  let ?n = "cmp_len (neg_mag v)"
  have "MaxInt64 < uint v"
    using sint_uint64 [of v] uint_ge_0 [of v] assms by (simp add: MaxInt64_def split: if_splits)
  moreover have "unat (word_of_nat (8 - ?n) :: byte) = 8 - ?n"
    by (rule unat_tag(3))
  moreover have "8 - (8 - ?n) = ?n"
    using cmp_len_bounds(2) by simp
  ultimately show ?thesis
    using cmp_len_bounds(1) [of "neg_mag v"] foldl_neg [OF assms]
    by (simp add: EncodeComparableVarint_neg [OF assms] DecodeComparableVarint_def tag_defs Let_def)
qed

lemma DecodeComparableVarint_tagged:
  assumes "239 < sint v"
  shows "DecodeComparableVarint (EncodeComparableVarint [] v @ rest) = Inr (rest, v)"
proof -
  let ?n = "cmp_len (unat v)"
  have v: "239 < unat v"
    using assms sint_nonneg_unat [of v] by simp
  have n: "unat (word_of_nat (247 + ?n) :: byte) = 247 + ?n"
    using cmp_len_bounds(2) by (rule unat_tag(1))
  have "unat (foldl shl8_or 0 (be_bytes ?n (unat v))) = unat v"
    using cmp_len_less [OF unat_u64_less] cmp_len_bounds(2)
    by (simp add: unat_foldl_shl8_or be_val_be_bytes)
  then have "foldl shl8_or 0 (be_bytes ?n (unat v)) = v"
    by (simp add: word_unat_eq_iff)
  moreover have "\<not> MaxInt64 < uint v"
    using sint_uint64 [of v] uint_u64_less [of v] assms by (simp add: MaxInt64_def split: if_splits)
  ultimately show ?thesis
    using v n cmp_len_bounds(1) [of "unat v"] assms
    by (simp add: EncodeComparableVarint_nonneg EncodeComparableUvarint_eq
        DecodeComparableVarint_def tag_defs Let_def del: of_nat_add)
qed

lemma DecodeComparableVarint_single:
  assumes "0 \<le> sint v" "sint v \<le> 239"
  shows "DecodeComparableVarint (EncodeComparableVarint [] v @ rest) =
     Inr (EncodeComparableVarint [] v @ rest, v)"
proof -
  have v: "unat v \<le> 239"
    using assms sint_nonneg_unat [of v] by simp
  have "(ucast (word_of_nat (unat v + 8) :: byte) :: u64) = word_of_nat (unat v + 8)"
    using unat_tag(2) [OF v] by (metis of_nat_unat)
  then show ?thesis
    using assms v unat_tag(2) [OF v]
    by (simp add: EncodeComparableVarint_nonneg EncodeComparableUvarint_eq
        DecodeComparableVarint_def tag_defs)
qed

lemma EncodeComparableVarint_mono:
  assumes "sint v < sint w"
  shows "EncodeComparableVarint [] v @ r < EncodeComparableVarint [] w @ s"
proof -
  consider (neg) "sint v < 0" "sint w < 0" | (mixed) "sint v < 0" "0 \<le> sint w"
    | (nonneg) "0 \<le> sint v" "0 \<le> sint w"
    using assms by linarith
  then show ?thesis
  proof cases
    case neg
    let ?m = "cmp_len (neg_mag v)" and ?n = "cmp_len (neg_mag w)"
    have mag: "neg_mag w < neg_mag v"
      using assms neg_mag_bounds(3) [OF neg(1)] neg_mag_bounds(3) [OF neg(2)] by simp
    show ?thesis
    proof (cases "?n = ?m")
      case True
      have "be_val (be_bytes ?m (unat v)) < be_val (be_bytes ?m (unat w))"
        using neg_mag_mod [OF neg(1) neg_mag_len [OF neg(1)] cmp_len_bounds(2)]
          neg_mag_mod [OF neg(2) neg_mag_len [OF neg(2)] cmp_len_bounds(2)]
          mag True neg_mag_len [OF neg(1)]
        by (simp add: be_val_be_bytes)
      then have "be_bytes ?m (unat v) < be_bytes ?m (unat w)"
        by (simp add: be_val_less_iff)
      then show ?thesis
        using neg True by (simp add: EncodeComparableVarint_neg append_less_append_eq_length)
    next
      case False
      then have "?n < ?m"
        using cmp_len_mono [of "neg_mag w" "neg_mag v"] mag by simp
      then have "(word_of_nat (8 - ?m) :: byte) < word_of_nat (8 - ?n)"
        using cmp_len_bounds(2) [of "neg_mag v"] by (simp only: word_less_nat_alt unat_tag)
      then show ?thesis
        using neg by (simp add: EncodeComparableVarint_neg)
    qed
  next
    case mixed
    have "(word_of_nat (8 - cmp_len (neg_mag v)) :: byte) <
        word_of_nat (if unat w \<le> 239 then unat w + 8 else 247 + cmp_len (unat w))"
      using cmp_len_bounds [of "neg_mag v"] cmp_len_bounds [of "unat w"]
        unat_tag(1) [of "cmp_len (unat w)"] unat_tag(2) [of "unat w"]
      by (simp add: word_less_nat_alt unat_tag(3) del: of_nat_add of_nat_diff) arith
    then show ?thesis
      using mixed
      by (auto simp: EncodeComparableVarint_neg EncodeComparableVarint_nonneg
          EncodeComparableUvarint_eq split: if_splits)
  next
    case nonneg
    then have "v < w"
      using assms by (simp add: word_less_nat_alt sint_nonneg_unat)
    then show ?thesis
      using nonneg by (simp add: EncodeComparableVarint_nonneg EncodeComparableUvarint_mono)
  qed
qed

section \<open>Properties\<close>

text \<open>
  C5: the comparable varint encodings preserve order in both of their
  forms, and the unsigned decoder inverts the unsigned encoder.
\<close>

theorem comparable_varint_order:
  "(EncodeComparableVarint [] v < EncodeComparableVarint [] w \<longleftrightarrow> sint v < sint w) \<and>
   (EncodeComparableUvarint [] x @ r < EncodeComparableUvarint [] y @ s \<longleftrightarrow> x < y \<or> x = y \<and> r < s) \<and>
   (DecodeComparableUvarint (EncodeComparableUvarint [] x @ r) = Inr (r, x))"
proof (intro conjI)
  show "EncodeComparableVarint [] v < EncodeComparableVarint [] w \<longleftrightarrow> sint v < sint w"
  proof (cases "sint v" "sint w" rule: linorder_cases)
    case less
    then show ?thesis using EncodeComparableVarint_mono [of v w "[]" "[]"] by simp
  next
    case equal
    then have "v = w" by (simp add: sint_inject)
    then show ?thesis by simp
  next
    case greater
    then show ?thesis using EncodeComparableVarint_mono [of w v "[]" "[]"] by simp
  qed
qed (fact codec_cmp_uvarint.enc_less_iff codec_cmp_uvarint.dec_enc)+

text \<open>
  C6: what \<^verbatim>\<open>DecodeComparableVarint\<close> returns on an encoded value:
  always the value, but the leftover is the rest of the input only for values outside 0..239.
  For a value encoded in a single byte the byte is not consumed, so a caller that decodes a
  sequence from the leftover reads the same value again.
\<close>

theorem DecodeComparableVarint_leftover:
  "DecodeComparableVarint (EncodeComparableVarint [] v @ rest) =
     Inr (if 0 \<le> sint v \<and> sint v \<le> 239 then EncodeComparableVarint [] v @ rest else rest, v)"
  using DecodeComparableVarint_neg [of v rest] DecodeComparableVarint_tagged [of v rest]
    DecodeComparableVarint_single [of v rest]
  by (auto simp: not_le)

end
