(* ===== verification/Codec_Bytes.thy ===== *)
theory Codec_Bytes
  imports Codec_Varint
begin

text \<open>
  \<^verbatim>\<open>util/codec/bytes.go\<close>: byte strings in groups of eight with a marker byte that counts the
  padding, their bitwise complement for descending order, and the compact encoding with a
  varint length in front. \<^verbatim>\<open>reallocBytes\<close> changes the capacity of a slice only, and a
  model slice has no capacity, so it is the identity.
\<close>

section \<open>Definitions\<close>

definition encGroupSize :: nat where "encGroupSize = 8"
definition encMarker :: byte where "encMarker = 0xFF"
definition encPad :: byte where "encPad = 0"
definition pads :: bytes where "pads = replicate encGroupSize 0"

text \<open>The loop of \<^verbatim>\<open>EncodeBytes\<close>, over the part \<^verbatim>\<open>data[idx:]\<close> that is left.\<close>

function EncodeBytes_loop :: "bytes \<Rightarrow> bytes \<Rightarrow> bytes" where
  "EncodeBytes_loop result data =
     (let remain = length data in
      if encGroupSize \<le> remain then
        EncodeBytes_loop ((result @ take encGroupSize data) @ [encMarker - of_nat 0])
          (drop encGroupSize data)
      else
        let padCount = encGroupSize - remain
        in ((result @ data) @ take padCount pads) @ [encMarker - of_nat padCount])"
  by pat_completeness auto
termination
  by (relation "measure (\<lambda>(_, data). length data)") (auto simp: encGroupSize_def)

declare EncodeBytes_loop.simps [simp del]

definition EncodeBytes :: "bytes \<Rightarrow> bytes \<Rightarrow> bytes" where
  "EncodeBytes b data = EncodeBytes_loop b data"

definition EncodeBytesExt :: "bytes \<Rightarrow> bytes \<Rightarrow> bool \<Rightarrow> bytes" where
  "EncodeBytesExt b data isRawKv = (if isRawKv then b @ data else EncodeBytes b data)"

definition EncodedBytesLength :: "nat \<Rightarrow> nat" where
  "EncodedBytesLength dataLen =
     (let md = dataLen mod encGroupSize; padCount = encGroupSize - md
      in dataLen + padCount + 1 + dataLen div encGroupSize)"

definition safeReverseBytes :: "bytes \<Rightarrow> bytes" where
  "safeReverseBytes b = map (\<lambda>x. NOT x) b"

text \<open>
  \<^verbatim>\<open>fastReverseBytes\<close> complements whole machine words first and the remaining bytes one by one.
\<close>

definition wordSize :: nat where "wordSize = 8"

text \<open>Whether the machine reads words at any address: true of amd64, where this program runs.\<close>

definition supportsUnaligned :: bool where "supportsUnaligned = True"

definition fastReverseBytes :: "bytes \<Rightarrow> bytes" where
  "fastReverseBytes b =
     (let n = length b; w = n div wordSize;
          words = map (\<lambda>i. BigEndian_PutUint64 (NOT (BigEndian_Uint64 (take wordSize (drop (i * wordSize) b)))))
                    [0..<w]
      in concat words @ map (\<lambda>x. NOT x) (drop (w * wordSize) b))"

definition reverseBytes :: "bool \<Rightarrow> bytes \<Rightarrow> bytes" where
  "reverseBytes unaligned b =
     (if unaligned then fastReverseBytes b else safeReverseBytes b)"

function decodeBytes_loop :: "bytes \<Rightarrow> bytes \<Rightarrow> bool \<Rightarrow> bytes decoded" where
  "decodeBytes_loop b buf rv =
     (if length b < encGroupSize + 1 then Inl InsufficientBytes
      else
        let groupBytes = take (encGroupSize + 1) b;
            group = take encGroupSize groupBytes;
            marker = groupBytes ! encGroupSize;
            padCount = (if rv then marker else encMarker - marker)
        in if unat padCount > encGroupSize then Inl (InvalidMarker groupBytes)
           else
             let realGroupSize = encGroupSize - unat padCount;
                 buf' = buf @ take realGroupSize group;
                 b' = drop (encGroupSize + 1) b
             in if padCount \<noteq> 0 then
                  let padByte = (if rv then encMarker else encPad)
                  in if \<exists>v \<in> set (drop realGroupSize group). v \<noteq> padByte
                     then Inl (InvalidPadding groupBytes)
                     else Inr (b', buf')
                else decodeBytes_loop b' buf' rv)"
  by pat_completeness auto
termination
  by (relation "measure (\<lambda>(b, _). length b)") (auto simp: encGroupSize_def)

declare decodeBytes_loop.simps [simp del]

definition decodeBytes :: "bool \<Rightarrow> bytes \<Rightarrow> bool \<Rightarrow> bytes decoded" where
  "decodeBytes unaligned b rv =
     res_bind (decodeBytes_loop b [] rv)
       (\<lambda>(b', buf). Inr (b', if rv then reverseBytes unaligned buf else buf))"

definition DecodeBytes :: "bool \<Rightarrow> bytes \<Rightarrow> bytes decoded" where
  "DecodeBytes unaligned b = decodeBytes unaligned b False"

definition EncodeBytesDesc :: "bool \<Rightarrow> bytes \<Rightarrow> bytes \<Rightarrow> bytes" where
  "EncodeBytesDesc unaligned b data =
     (let n = length b; b' = EncodeBytes b data
      in take n b' @ reverseBytes unaligned (drop n b'))"

definition DecodeBytesDesc :: "bool \<Rightarrow> bytes \<Rightarrow> bytes decoded" where
  "DecodeBytesDesc unaligned b = decodeBytes unaligned b True"

definition EncodeCompactBytes :: "bytes \<Rightarrow> bytes \<Rightarrow> bytes" where
  "EncodeCompactBytes b data = EncodeVarint b (of_nat (length data)) @ data"

definition DecodeCompactBytes :: "bytes \<Rightarrow> bytes decoded" where
  "DecodeCompactBytes b =
     res_bind (DecodeVarint b)
       (\<lambda>(b', n). if sint n < 0 \<or> int (length b') < sint n then Inl (InvalidLength n)
                  else Inr (drop (nat (sint n)) b', take (nat (sint n)) b'))"

section \<open>Groups\<close>

text \<open>The first group of a byte string, padded, and its marker.\<close>

definition enc_group :: "bytes \<Rightarrow> bytes" where
  "enc_group d = take 8 (d @ replicate 8 0)"

definition enc_mark :: "bytes \<Rightarrow> byte" where
  "enc_mark d = word_of_nat (247 + min 8 (length d))"

lemmas group_consts = encGroupSize_def encMarker_def encPad_def pads_def

lemma length_enc_group [simp]: "length (enc_group d) = 8"
  by (simp add: enc_group_def)

lemma EncodeBytes_loop_long:
  "8 \<le> length d \<Longrightarrow> EncodeBytes_loop r d = EncodeBytes_loop (r @ take 8 d @ [255]) (drop 8 d)"
  by (simp add: EncodeBytes_loop.simps [of r d] group_consts)

lemma EncodeBytes_loop_short:
  "length d < 8 \<Longrightarrow>
   EncodeBytes_loop r d = r @ d @ replicate (8 - length d) 0 @ [word_of_nat (247 + length d)]"
  by (simp add: EncodeBytes_loop.simps [of r d] group_consts of_nat_diff Let_def)

lemma EncodeBytes_loop_append: "EncodeBytes_loop r d = r @ EncodeBytes_loop [] d"
proof (induction d arbitrary: r rule: length_induct)
  case (1 d)
  show ?case
  proof (cases "8 \<le> length d")
    case True
    let ?g = "take 8 d @ [255]"
    have "length (drop 8 d) < length d"
      using True by simp
    then have IH: "EncodeBytes_loop r' (drop 8 d) = r' @ EncodeBytes_loop [] (drop 8 d)" for r'
      using "1" by blast
    show ?thesis
      using IH [of "r @ ?g"] IH [of ?g] by (simp add: EncodeBytes_loop_long [OF True])
  qed (simp add: EncodeBytes_loop_short)
qed

lemma EncodeBytes_append: "EncodeBytes b d = b @ EncodeBytes [] d"
  unfolding EncodeBytes_def by (rule EncodeBytes_loop_append)

lemma enc_group_long: "8 \<le> length d \<Longrightarrow> enc_group d = take 8 d \<and> enc_mark d = 255"
  by (simp add: enc_group_def enc_mark_def)

lemma enc_group_short:
  "length d < 8 \<Longrightarrow>
   enc_group d = d @ replicate (8 - length d) 0 \<and> enc_mark d = word_of_nat (247 + length d)"
  by (simp add: enc_group_def enc_mark_def)

lemma EncodeBytes_step:
  "EncodeBytes [] d =
     enc_group d @ enc_mark d # (if 8 \<le> length d then EncodeBytes [] (drop 8 d) else [])"
proof (cases "8 \<le> length d")
  case True
  then show ?thesis
    using EncodeBytes_loop_append [of "take 8 d @ [255]" "drop 8 d"]
    by (simp add: EncodeBytes_def EncodeBytes_loop_long enc_group_long)
next
  case False
  then show ?thesis
    by (simp add: EncodeBytes_def EncodeBytes_loop_short enc_group_short)
qed

lemma length_EncodeBytes: "length (EncodeBytes [] d) = (length d div 8 + 1) * 9"
proof (induction d rule: length_induct)
  case (1 d)
  show ?case
  proof (cases "8 \<le> length d")
    case True
    then have "length d div 8 = (length d - 8) div 8 + 1"
      by (simp add: le_div_geq)
    moreover have "length (EncodeBytes [] (drop 8 d)) = ((length d - 8) div 8 + 1) * 9"
      using "1" True by simp
    ultimately show ?thesis
      using True by (simp add: EncodeBytes_step [of d])
  qed (simp add: EncodeBytes_step [of d])
qed

lemma EncodedBytesLength_eq: "EncodedBytesLength n = (n div 8 + 1) * 9"
proof -
  define q r where "q = n div 8" and "r = n mod 8"
  have "n = q * 8 + r" "r < 8"
    by (simp_all add: q_def r_def)
  then have "n + (8 - r) + 1 + q = (q + 1) * 9"
    by simp
  then show ?thesis
    by (simp only: EncodedBytesLength_def encGroupSize_def Let_def q_def r_def)
qed

section \<open>Decoding what was encoded\<close>

lemma unat_enc_mark: "unat (enc_mark d) = 247 + min 8 (length d)"
  by (simp add: enc_mark_def unat_of_nat del: of_nat_add)

lemma enc_mark_pad: "unat (255 - enc_mark d) = 8 - min 8 (length d)"
proof -
  have "255 - enc_mark d = word_of_nat (8 - min 8 (length d))"
    by (simp add: enc_mark_def of_nat_diff)
  then show ?thesis
    by (simp add: unat_of_nat del: of_nat_diff)
qed

lemma NOT_byte: "NOT (x :: byte) = 255 - x"
  by (simp add: not_eq_complement)

text \<open>
  One round of the decoding loop over an encoded group, for both directions: the bytes are
  complemented in the descending one.
\<close>

lemma enc_group_eq: "enc_group d = take 8 d @ replicate (8 - length d) 0"
  by (simp add: enc_group_def)

lemma decodeBytes_loop_group:
  assumes len: "length g = 8" and q: "(if rv then m else 255 - m) = q" and p: "unat q = p" "p \<le> 8"
    and padByte: "(if rv then 255 else 0) = padByte"
  shows "decodeBytes_loop (g @ m # rest) buf rv =
     (if q \<noteq> 0 then
        if \<exists>v \<in> set (drop (8 - p) g). v \<noteq> padByte
        then Inl (InvalidPadding (g @ [m])) else Inr (rest, buf @ take (8 - p) g)
      else decodeBytes_loop rest (buf @ take (8 - p) g) rv)"
proof -
  have "take (8 + 1) (g @ m # rest) = g @ [m]" "drop (8 + 1) (g @ m # rest) = rest"
    "(g @ [m]) ! 8 = m" "take 8 (g @ [m]) = g" "\<not> length (g @ m # rest) < 8 + 1" "\<not> 8 < p"
    using len p(2) by (simp_all add: nth_append)
  then show ?thesis
    unfolding decodeBytes_loop.simps [of "g @ m # rest"] group_consts Let_def
    by (simp only: q p(1) padByte if_False)
qed

lemma decode_group:
  assumes f: "f = (if rv then (\<lambda>x. NOT x) else (\<lambda>x. x))"
  shows "decodeBytes_loop (map f (enc_group d) @ f (enc_mark d) # rest) buf rv =
     (if 8 \<le> length d then decodeBytes_loop rest (buf @ map f (take 8 d)) rv
      else Inr (rest, buf @ map f d))"
proof -
  let ?p = "8 - min 8 (length d)"
  have q: "(if rv then f (enc_mark d) else 255 - f (enc_mark d)) = 255 - enc_mark d"
    by (simp add: f NOT_byte)
  have q0: "255 - enc_mark d \<noteq> 0 \<longleftrightarrow> length d < 8"
    using enc_mark_pad [of d] by (auto simp flip: unat_eq_zero)
  have parts: "take (8 - ?p) (map f (enc_group d)) = map f (take 8 d)"
    "drop (8 - ?p) (map f (enc_group d)) = replicate (8 - length d) (f 0)"
    by (cases "8 \<le> length d"; simp add: enc_group_eq take_map drop_map)+
  have "(if rv then 255 else 0) = f 0" "length (map f (enc_group d)) = 8" "?p \<le> 8"
    by (simp_all add: f NOT_byte)
  note step = decodeBytes_loop_group [OF this(2) q enc_mark_pad this(3) this(1)]
  show ?thesis
    unfolding step parts q0 by (cases "8 \<le> length d") simp_all
qed

lemma decodeBytes_loop_EncodeBytes:
  assumes f: "f = (if rv then (\<lambda>x. NOT x) else (\<lambda>x. x))"
  shows "decodeBytes_loop (map f (EncodeBytes [] d) @ rest) buf rv = Inr (rest, buf @ map f d)"
proof (induction d arbitrary: buf rule: length_induct)
  case (1 d)
  let ?tl = "map f (if 8 \<le> length d then EncodeBytes [] (drop 8 d) else []) @ rest"
  have "decodeBytes_loop (map f (EncodeBytes [] d) @ rest) buf rv =
      decodeBytes_loop (map f (enc_group d) @ f (enc_mark d) # ?tl) buf rv"
    by (subst EncodeBytes_step) simp
  also have "\<dots> = Inr (rest, buf @ map f d)"
  proof (cases "8 \<le> length d")
    case True
    then have "length (drop 8 d) < length d" by simp
    with "1" have "decodeBytes_loop (map f (EncodeBytes [] (drop 8 d)) @ rest) (buf @ map f (take 8 d)) rv =
        Inr (rest, (buf @ map f (take 8 d)) @ map f (drop 8 d))"
      by blast
    with True show ?thesis
      by (simp add: decode_group [OF f] flip: map_append)
  qed (simp add: decode_group [OF f])
  finally show ?case .
qed

section \<open>Complementing a slice\<close>

lemma PutUint64_NOT: "BigEndian_PutUint64 (NOT v) = map (\<lambda>x. NOT x) (BigEndian_PutUint64 v)"
proof -
  have "ucast (drop_bit k (NOT v)) = (NOT (ucast (drop_bit k v)) :: byte)" if "k \<le> 56" for k
    using that by (intro bit_word_eqI) (simp add: bit_simps)
  from this [of 56] this [of 48] this [of 40] this [of 32] this [of 24] this [of 16] this [of 8] this [of 0]
  show ?thesis
    by (simp add: BigEndian_PutUint64_def)
qed

lemma concat_chunks:
  "w * n \<le> length b \<Longrightarrow>
   concat (map (\<lambda>i. map g (take n (drop (i * n) b))) [0..<w]) = map g (take (w * n) b)"
proof (induction w)
  case (Suc w)
  have "take (n + w * n) b = take (w * n) b @ take n (drop (w * n) b)"
    by (metis add.commute take_add)
  then show ?case using Suc by simp
qed simp

lemma fastReverseBytes_eq: "fastReverseBytes b = map (\<lambda>x. NOT x) b"
proof -
  let ?w = "length b div 8"
  have "BigEndian_PutUint64 (NOT (BigEndian_Uint64 (take 8 (drop (i * 8) b)))) =
      map (\<lambda>x. NOT x) (take 8 (drop (i * 8) b))" if "i < ?w" for i
  proof -
    have "(i + 1) * 8 \<le> ?w * 8"
      using that by (intro mult_le_mono1) simp
    also have "\<dots> \<le> length b"
      by simp
    finally show ?thesis
      by (simp add: PutUint64_NOT)
  qed
  then have "concat (map (\<lambda>i. BigEndian_PutUint64 (NOT (BigEndian_Uint64 (take 8 (drop (i * 8) b))))) [0..<?w])
      = concat (map (\<lambda>i. map (\<lambda>x. NOT x) (take 8 (drop (i * 8) b))) [0..<?w])"
    by (intro arg_cong [where f = concat] map_cong) auto
  also have "\<dots> = map (\<lambda>x. NOT x) (take (?w * 8) b)"
    by (rule concat_chunks) simp
  finally show ?thesis
    by (simp add: fastReverseBytes_def wordSize_def Let_def flip: map_append)
qed

lemma reverseBytes_eq: "reverseBytes u b = map (\<lambda>x. NOT x) b"
  by (simp add: reverseBytes_def fastReverseBytes_eq safeReverseBytes_def)

lemma EncodeBytesDesc_eq: "EncodeBytesDesc u b d = b @ map (\<lambda>x. NOT x) (EncodeBytes [] d)"
  using EncodeBytes_append [of b d] by (simp add: EncodeBytesDesc_def Let_def reverseBytes_eq)

lemma DecodeBytes_EncodeBytes: "DecodeBytes u (EncodeBytes [] d @ rest) = Inr (rest, d)"
  using decodeBytes_loop_EncodeBytes [of "\<lambda>x. x" False d rest "[]"]
  by (simp add: DecodeBytes_def decodeBytes_def)

lemma DecodeBytesDesc_EncodeBytesDesc:
  "DecodeBytesDesc u (EncodeBytesDesc u' [] d @ rest) = Inr (rest, d)"
  using decodeBytes_loop_EncodeBytes [of "\<lambda>x. NOT x" True d rest "[]"]
  by (simp add: DecodeBytesDesc_def decodeBytes_def EncodeBytesDesc_eq reverseBytes_eq o_def)

section \<open>Order\<close>

lemma zeros_le: "length xs = n \<Longrightarrow> replicate n (0 :: byte) \<le> xs"
proof (induction xs arbitrary: n)
  case (Cons x xs)
  then show ?case
    by (cases "x = 0") (auto simp: word_neq_0_conv)
qed simp

text \<open>Padding with zeros and counting the padding preserves the order of byte strings.\<close>

lemma padded_less:
  fixes d e :: bytes
  assumes "d < e"
  shows "let pd = take n (d @ replicate n 0); pe = take n (e @ replicate n 0) in
     pd < pe \<or> pd = pe \<and> (min n (length d) < min n (length e) \<or>
       n \<le> length d \<and> n \<le> length e \<and> drop n d < drop n e)"
  using assms
proof (induction n arbitrary: d e)
  case 0
  then show ?case by simp
next
  case (Suc n)
  show ?case
  proof (cases d)
    case Nil
    with Suc.prems obtain y ys where e: "e = y # ys"
      by (cases e) auto
    have "replicate n 0 \<le> take n (ys @ 0 # replicate n 0)"
      by (rule zeros_le) simp
    then show ?thesis
      using e Nil by (cases "y = 0") (auto simp: word_neq_0_conv order.order_iff_strict)
  next
    case (Cons x xs)
    with Suc.prems obtain y ys where e: "e = y # ys" and xy: "x < y \<or> x = y \<and> xs < ys"
      by (cases e) auto
    have tk: "take (n - k) (0 # replicate n (0 :: byte)) = replicate (n - k) 0" for k
      unfolding replicate_Suc [symmetric] by (simp add: min_def del: replicate_Suc)
    show ?thesis
      using xy Suc.IH [of xs ys] Cons e by (auto simp: tk Let_def)
  qed
qed

lemma EncodeBytes_mono: "d < e \<Longrightarrow> EncodeBytes [] d @ r < EncodeBytes [] e @ s"
proof (induction d arbitrary: e rule: length_induct)
  case (1 d)
  let ?tl = "\<lambda>d. if 8 \<le> length d then EncodeBytes [] (drop 8 d) else []"
  have "enc_group d < enc_group e \<or> enc_group d = enc_group e \<and>
      (enc_mark d < enc_mark e \<or> 8 \<le> length d \<and> 8 \<le> length e \<and> drop 8 d < drop 8 e)"
    using padded_less [OF "1.prems", of 8]
    by (auto simp: enc_group_def Let_def word_less_nat_alt unat_enc_mark)
  then show ?case
  proof (elim disjE conjE)
    assume "8 \<le> length d" "8 \<le> length e" "drop 8 d < drop 8 e" "enc_group d = enc_group e"
    moreover from this have "EncodeBytes [] (drop 8 d) @ r < EncodeBytes [] (drop 8 e) @ s"
      using "1.IH" by simp
    ultimately show ?thesis
      by (simp add: EncodeBytes_step [of d] EncodeBytes_step [of e] enc_group_long)
  qed (simp_all add: EncodeBytes_step [of d] EncodeBytes_step [of e] append_less_append_eq_length)
qed

interpretation codec_bytes: mem_comparable "EncodeBytes []" "DecodeBytes u" "(<)" for u
  by unfold_locales (auto intro: DecodeBytes_EncodeBytes EncodeBytes_mono)

interpretation codec_bytes_desc:
  mem_comparable "EncodeBytesDesc u []" "DecodeBytesDesc u'" "\<lambda>d e. e < d" for u u'
  by unfold_locales
    (auto simp: EncodeBytesDesc_eq [of u "[]"] codec_bytes.complement_mono
      intro: DecodeBytesDesc_EncodeBytesDesc [of u' u, unfolded EncodeBytesDesc_eq append_Nil])

section \<open>Compact bytes\<close>

lemma DecodeCompactBytes_Encode:
  assumes "length d < 2 ^ 63"
  shows "DecodeCompactBytes (EncodeCompactBytes [] d @ rest) = Inr (rest, d)"
proof -
  have "sint (word_of_nat (length d) :: i64) = int (length d)"
    using assms sint_of_int_range [of "int (length d)"] by simp
  then show ?thesis
    by (simp add: DecodeCompactBytes_def EncodeCompactBytes_def DecodeVarint_Encode)
qed

section \<open>Properties\<close>

text \<open>
  C1: the memcomparable encoding of byte strings: \<^verbatim>\<open>DecodeBytes\<close> inverts
  \<^verbatim>\<open>EncodeBytes\<close> whatever follows the encoding, and comparing encodings compares the strings, then
  what follows them.
\<close>

theorem bytes_codec_correct:
  "(EncodeBytes b d = b @ EncodeBytes [] d) \<and>
   (DecodeBytes u (EncodeBytes [] d @ r) = Inr (r, d)) \<and>
   (EncodeBytes [] d @ r < EncodeBytes [] e @ s \<longleftrightarrow> d < e \<or> d = e \<and> r < s)"
  by (intro conjI) (fact EncodeBytes_append codec_bytes.dec_enc codec_bytes.enc_less_iff)+

text \<open>
  C3: the descending encoding reverses the order and is inverted by
  \<^verbatim>\<open>DecodeBytesDesc\<close>, also between machines with and without unaligned word access (the flags
  \<^verbatim>\<open>u\<close> of the writer and \<^verbatim>\<open>u'\<close> of the reader).
\<close>

theorem bytes_desc_codec_correct:
  "(DecodeBytesDesc u' (EncodeBytesDesc u [] d @ r) = Inr (r, d)) \<and>
   (EncodeBytesDesc u [] d @ r < EncodeBytesDesc u [] e @ s \<longleftrightarrow> e < d \<or> d = e \<and> r < s)"
  by (intro conjI) (fact codec_bytes_desc.dec_enc codec_bytes_desc.enc_less_iff)+

text \<open>
  C8: the word-at-a-time reversal is the byte-at-a-time one, on every
  length, and is an involution.
\<close>

theorem reverseBytes_equiv:
  "(fastReverseBytes b = safeReverseBytes b) \<and>
   (reverseBytes u (reverseBytes u' b) = b)"
  by (simp_all add: fastReverseBytes_eq safeReverseBytes_def reverseBytes_eq o_def)

text \<open>
  C9: \<^verbatim>\<open>EncodedBytesLength\<close>, by which callers size their buffers, is the
  exact length of the encoding.
\<close>

theorem EncodedBytesLength_exact:
  "length (EncodeBytes b d) = length b + EncodedBytesLength (length d)"
  using EncodeBytes_append [of b d] by (simp add: length_EncodeBytes EncodedBytesLength_eq)

text \<open>
  C10: the compact encoding is inverted for every string whose length is
  an int64.
\<close>

theorem compact_bytes_roundtrip:
  assumes "length d < 2 ^ 63"
  shows "DecodeCompactBytes (EncodeCompactBytes [] d @ rest) = Inr (rest, d)"
  using assms by (rule DecodeCompactBytes_Encode)

theorem compact_bytes_roundtrip_witness:
  "DecodeCompactBytes (EncodeCompactBytes [] [7, 0, 255] @ [1]) = Inr ([1], [7, 0, 255])"
  by (rule compact_bytes_roundtrip) simp

end
