(* ===== verification/Codec_Peek.thy ===== *)
theory Codec_Peek
  imports Codec_Bytes "HOL-Library.Signed_Division"
begin

text \<open>
  The part of \<^verbatim>\<open>util/codec/codec.go\<close> that finds the end of the first encoded value of a slice
  without decoding it (\<^verbatim>\<open>peek\<close>, \<^verbatim>\<open>CutOne\<close>, \<^verbatim>\<open>CutColumnID\<close>), with the two peeks of package
  \<^verbatim>\<open>types\<close> it calls. A Go \<^verbatim>\<open>int\<close> is an int with the wrap-around written out; slicing past the end
  of a slice, which panics, is the error \<^verbatim>\<open>IndexOutOfRange\<close>.
\<close>

section \<open>Definitions\<close>

definition wrap64 :: "int \<Rightarrow> int" where
  "wrap64 x = sint (word_of_int x :: i64)"

definition NilFlag :: byte where "NilFlag = 0"
definition bytesFlag :: byte where "bytesFlag = 1"
definition compactBytesFlag :: byte where "compactBytesFlag = 2"
definition intFlag :: byte where "intFlag = 3"
definition uintFlag :: byte where "uintFlag = 4"
definition floatFlag :: byte where "floatFlag = 5"
definition decimalFlag :: byte where "decimalFlag = 6"
definition durationFlag :: byte where "durationFlag = 7"
definition varintFlag :: byte where "varintFlag = 8"
definition uvarintFlag :: byte where "uvarintFlag = 9"
definition jsonFlag :: byte where "jsonFlag = 10"
definition maxFlag :: byte where "maxFlag = 250"

lemmas flag_defs = NilFlag_def bytesFlag_def compactBytesFlag_def intFlag_def uintFlag_def
  floatFlag_def decimalFlag_def durationFlag_def varintFlag_def uvarintFlag_def jsonFlag_def
  maxFlag_def

text \<open>\<^verbatim>\<open>peekBytes\<close>, with the bytes of \<^verbatim>\<open>b\<close> from \<^verbatim>\<open>offset\<close> on.\<close>

function peekBytes_loop :: "bytes \<Rightarrow> nat \<Rightarrow> codec_error + nat" where
  "peekBytes_loop b offset =
     (if length b < offset + encGroupSize + 1 then Inl InsufficientBytes
      else
        let marker = b ! (offset + encGroupSize);
            padCount = encMarker - marker;
            offset' = offset + (encGroupSize + 1)
        in if padCount \<noteq> 0 then Inr offset' else peekBytes_loop b offset')"
  by pat_completeness auto
termination
  by (relation "measure (\<lambda>(b, offset). length b - offset)") (auto simp: encGroupSize_def)

declare peekBytes_loop.simps [simp del]

definition peekBytes :: "bytes \<Rightarrow> codec_error + int" where
  "peekBytes b = map_sum id int (peekBytes_loop b 0)"

definition peekCompactBytes :: "bytes \<Rightarrow> codec_error + int" where
  "peekCompactBytes b =
     (let (v, n) = Varint b; vi = sint v
      in if n < 0 then Inl LargerThan64Bits
         else if n = 0 then Inl InsufficientBytes
         else if int (length b) < wrap64 (vi + n) then Inl InsufficientBytes
         else Inr (wrap64 (n + vi)))"

definition peekVarint :: "bytes \<Rightarrow> codec_error + int" where
  "peekVarint b = (let (_, n) = Varint b in if n < 0 then Inl LargerThan64Bits else Inr n)"

definition peekUvarint :: "bytes \<Rightarrow> codec_error + int" where
  "peekUvarint b = (let (_, n) = Uvarint b in if n < 0 then Inl LargerThan64Bits else Inr n)"

text \<open>\<^verbatim>\<open>types/mydecimal.go\<close>: the size of a binary decimal.\<close>

definition digitsPerWord :: int where "digitsPerWord = 9"
definition decimalWordSize :: int where "decimalWordSize = 4"
definition dig2bytes :: "int list" where "dig2bytes = [0, 1, 1, 2, 2, 3, 3, 4, 4, 4]"

definition DecimalBinSize :: "int \<Rightarrow> int \<Rightarrow> codec_error + int" where
  "DecimalBinSize precision frac =
     (let digitsInt = precision - frac;
          wordsInt = digitsInt sdiv digitsPerWord;
          wordsFrac = frac sdiv digitsPerWord;
          xInt = digitsInt - wordsInt * digitsPerWord;
          xFrac = frac - wordsFrac * digitsPerWord
      in if xInt < 0 \<or> xInt \<ge> int (length dig2bytes) \<or> xFrac < 0 \<or> xFrac \<ge> int (length dig2bytes)
         then Inl BadNumber
         else Inr (wordsInt * decimalWordSize + dig2bytes ! nat xInt +
                   wordsFrac * decimalWordSize + dig2bytes ! nat xFrac))"

definition DecimalPeak :: "bytes \<Rightarrow> codec_error + int" where
  "DecimalPeak b =
     (if length b < 3 then Inl BadNumber
      else res_bind (DecimalBinSize (uint (b ! 0)) (uint (b ! 1))) (\<lambda>binSize. Inr (binSize + 2)))"

text \<open>\<^verbatim>\<open>types/json_binary_functions.go\<close>: the size of a binary JSON value.\<close>

definition LittleEndian_Uint32 :: "bytes \<Rightarrow> nat" where
  "LittleEndian_Uint32 b = be_val (rev (take 4 b))"

definition valTypeSize :: nat where "valTypeSize = 1"
definition headerSize :: nat where "headerSize = 8"
definition dataSizeOff :: nat where "dataSizeOff = 4"

definition PeekBytesAsJSON :: "bytes \<Rightarrow> codec_error + int" where
  "PeekBytesAsJSON b =
     (if b = [] then Inl InvalidJSON
      else let c = b ! 0 in
        if c \<in> {0x01, 0x03} then
          (if length b \<ge> valTypeSize + headerSize
           then let size = LittleEndian_Uint32 (drop (valTypeSize + dataSizeOff) b)
                in Inr (int valTypeSize + int size)
           else Inl InvalidJSON)
        else if c = 0x0c then
          (let (strLen, lenLen) = Uvarint (drop valTypeSize b)
           in Inr (wrap64 (int valTypeSize + sint strLen + lenLen)))
        else if c \<in> {0x09, 0x0a, 0x0b, 0x0e, 0x0f, 0x10} then Inr (int valTypeSize + 8)
        else if c = 0x04 then Inr (int valTypeSize + 1)
        else if c = 0x0d then
          (if length b < valTypeSize + 1 then Inl IndexOutOfRange
           else let (bufLen, lenLen) = Uvarint (drop (valTypeSize + 1) b)
                in Inr (wrap64 (int valTypeSize + 1 + sint bufLen + lenLen)))
        else if c = 0x11 then Inr (int valTypeSize + 12)
        else Inl InvalidJSON)"

definition peek :: "bytes \<Rightarrow> codec_error + int" where
  "peek b =
     (let originLength = int (length b) in
      if length b < 1 then Inl InvalidEncodedKey
      else
        let flag = b ! 0; b' = drop 1 b in
        res_bind
          (if flag = NilFlag then Inr 0
           else if flag \<in> {intFlag, uintFlag, floatFlag, durationFlag} then Inr 8
           else if flag = bytesFlag then peekBytes b'
           else if flag = compactBytesFlag then peekCompactBytes b'
           else if flag = decimalFlag then DecimalPeak b'
           else if flag = varintFlag then peekVarint b'
           else if flag = uvarintFlag then peekUvarint b'
           else if flag = jsonFlag then PeekBytesAsJSON b'
           else Inl (InvalidFlag flag))
          (\<lambda>l. let len = wrap64 (1 + l) in
            if len \<le> 0 then Inl InvalidEncodedKey
            else if len > originLength then Inl (InvalidKeyLength len (length b))
            else Inr len))"

definition CutOne :: "bytes \<Rightarrow> codec_error + bytes \<times> bytes" where
  "CutOne b = res_bind (peek b) (\<lambda>l. Inr (take (nat l) b, drop (nat l) b))"

definition CutColumnID :: "bytes \<Rightarrow> i64 decoded" where
  "CutColumnID b = (if length b < 1 then Inl InvalidEncodedKey else DecodeVarint (drop 1 b))"

text \<open>\<^verbatim>\<open>SetRawValues\<close> fills \<^verbatim>\<open>n\<close> datums with the raw bytes of the first \<^verbatim>\<open>n\<close> values of a row.\<close>

fun SetRawValues :: "bytes \<Rightarrow> nat \<Rightarrow> codec_error + bytes list" where
  "SetRawValues dat 0 = Inr []"
| "SetRawValues dat (Suc n) =
     res_bind (peek dat) (\<lambda>l.
       res_bind (SetRawValues (drop (nat l) dat) n) (\<lambda>vs. Inr (take (nat l) dat # vs)))"

section \<open>Cutting what was encoded\<close>

lemma wrap64_id: "- (2 ^ 63) \<le> x \<Longrightarrow> x < 2 ^ 63 \<Longrightarrow> wrap64 x = x"
  unfolding wrap64_def by (rule sint_of_int_range)

lemma enc_mark_end: "encMarker - enc_mark d = 0 \<longleftrightarrow> 8 \<le> length d"
  using enc_mark_pad [of d] by (auto simp: encMarker_def simp flip: unat_eq_zero)

lemma peekBytes_loop_EncodeBytes:
  "peekBytes_loop (p @ EncodeBytes [] d @ r) (length p) = Inr (length p + length (EncodeBytes [] d))"
proof (induction d arbitrary: p rule: length_induct)
  case (1 d)
  define tl where "tl = (if 8 \<le> length d then EncodeBytes [] (drop 8 d) else [])"
  have step: "EncodeBytes [] d = enc_group d @ enc_mark d # tl"
    unfolding tl_def by (rule EncodeBytes_step)
  have mark: "(p @ EncodeBytes [] d @ r) ! (length p + encGroupSize) = enc_mark d"
    by (simp add: step nth_append encGroupSize_def)
  have len: "length p + encGroupSize + 1 \<le> length (p @ EncodeBytes [] d @ r)"
    by (simp add: step encGroupSize_def)
  show ?case
  proof (cases "8 \<le> length d")
    case True
    then have "length (drop 8 d) < length d" by simp
    with "1" have IH: "peekBytes_loop (q @ EncodeBytes [] (drop 8 d) @ r) (length q) =
        Inr (length q + length (EncodeBytes [] (drop 8 d)))" for q
      by blast
    have "peekBytes_loop (p @ EncodeBytes [] d @ r) (length p) =
        peekBytes_loop (p @ EncodeBytes [] d @ r) (length p + 9)"
      using len mark True enc_mark_end [of d]
      by (subst peekBytes_loop.simps) (simp add: Let_def not_less encGroupSize_def)
    also have "\<dots> = Inr (length p + length (EncodeBytes [] d))"
      using IH [of "p @ enc_group d @ [enc_mark d]"] True by (simp add: step tl_def)
    finally show ?thesis .
  next
    case False
    then show ?thesis
      using len mark enc_mark_end [of d]
      by (subst peekBytes_loop.simps) (simp add: Let_def not_less encGroupSize_def step tl_def)
  qed
qed

lemma peekBytes_EncodeBytes: "peekBytes (EncodeBytes [] d @ r) = Inr (int (length (EncodeBytes [] d)))"
  using peekBytes_loop_EncodeBytes [of "[]" d r] by (simp add: peekBytes_def)

lemma peek_bounds: "peek b = Inr l \<Longrightarrow> 0 < l \<and> l \<le> int (length b)"
  by (auto simp: peek_def Let_def res_bind_def split: if_splits sum.splits)

lemma CutOne_split: "CutOne b = Inr (d, r) \<Longrightarrow> d @ r = b \<and> d \<noteq> []"
  using peek_bounds [of b] by (auto simp: CutOne_def res_bind_def split: sum.splits)

text \<open>What one flagged value looks like: a flag and a body that the matching peek measures.\<close>

lemma CutOne_flagged:
  assumes "peek (f # e @ r) = Inr (1 + int (length e))"
  shows "CutOne (f # e @ r) = Inr (f # e, r)"
proof -
  have "nat (1 + int (length e)) = Suc (length e)" by simp
  then show ?thesis using assms by (simp add: CutOne_def)
qed

lemma peek_body:
  assumes "length e < 2 ^ 62"
    and "f = bytesFlag \<Longrightarrow> peekBytes (e @ r) = Inr (int (length e))"
    and "f = compactBytesFlag \<Longrightarrow> peekCompactBytes (e @ r) = Inr (int (length e))"
    and "f = varintFlag \<Longrightarrow> peekVarint (e @ r) = Inr (int (length e))"
    and "f = uvarintFlag \<Longrightarrow> peekUvarint (e @ r) = Inr (int (length e))"
    and "f \<in> {intFlag, uintFlag, floatFlag, durationFlag} \<Longrightarrow> length e = 8"
    and "f \<in> {bytesFlag, compactBytesFlag, varintFlag, uvarintFlag, intFlag, uintFlag, floatFlag, durationFlag}"
  shows "CutOne (f # e @ r) = Inr (f # e, r)"
proof (rule CutOne_flagged)
  have "wrap64 (1 + int (length e)) = 1 + int (length e)"
    using assms(1) by (intro wrap64_id) simp_all
  then show "peek (f # e @ r) = Inr (1 + int (length e))"
    using assms(2-) by (auto simp: peek_def Let_def flag_defs)
qed

lemma peekVarint_Encode: "peekVarint (EncodeVarint [] v @ r) = Inr (int (length (EncodeVarint [] v)))"
  by (simp add: peekVarint_def EncodeVarint_def Varint_PutVarint)

lemma peekUvarint_Encode: "peekUvarint (EncodeUvarint [] v @ r) = Inr (int (length (EncodeUvarint [] v)))"
  by (simp add: peekUvarint_def EncodeUvarint_def Uvarint_PutUvarint)

lemma length_PutUvarint_le: "unat y < 128 ^ Suc k \<Longrightarrow> length (PutUvarint y) \<le> Suc k"
proof (induction k arbitrary: y)
  case 0
  then have "y < 0x80" by (simp add: word_less_nat_alt)
  then show ?case by (simp add: PutUvarint_short)
next
  case (Suc k)
  have "unat (drop_bit 7 y) < 128 ^ Suc k"
    using Suc.prems by (simp only: unat_drop7 div_less_iff_less_mult) (simp add: mult.commute)
  then have "length (PutUvarint (drop_bit 7 y)) \<le> Suc k" by (rule Suc.IH)
  then show ?case
    by (cases "0x80 \<le> y") (simp_all add: PutUvarint_long PutUvarint_short not_le)
qed

lemma length_varint_le:
  "length (EncodeVarint [] v) \<le> 10" "length (EncodeUvarint [] u) \<le> 10"
proof -
  have "unat y < 128 ^ Suc 9" for y :: u64
    using unat_u64_less [of y] by simp
  then show "length (EncodeVarint [] v) \<le> 10" "length (EncodeUvarint [] u) \<le> 10"
    using length_PutUvarint_le [of _ 9]
    by (simp_all add: EncodeVarint_def EncodeUvarint_def PutVarint_def)
qed

lemma peekCompactBytes_Encode:
  assumes "length d < 2 ^ 61"
  shows "peekCompactBytes (EncodeCompactBytes [] d @ r) = Inr (int (length (EncodeCompactBytes [] d)))"
proof -
  let ?n = "word_of_nat (length d) :: i64"
  have n: "sint ?n = int (length d)"
    using assms sint_of_int_range [of "int (length d)"] by simp
  have "length (PutVarint ?n) \<le> 10"
    using length_varint_le(1) [of ?n] by (simp add: EncodeVarint_def)
  then have w: "wrap64 (int (length d) + int (length (PutVarint ?n))) =
      int (length d) + int (length (PutVarint ?n))"
    using assms by (intro wrap64_id) simp_all
  then show ?thesis
    using length_PutVarint_pos [of ?n] Varint_PutVarint [of ?n "d @ r"]
    by (simp add: peekCompactBytes_def EncodeCompactBytes_def EncodeVarint_def n add.commute)
qed

section \<open>Properties\<close>

text \<open>
  C13: \<^verbatim>\<open>CutOne\<close> cuts exactly one value off a row or index key, whatever follows it:
  for fixed-width integers, varints, memcomparable and compact byte strings (below \<open>2 ^ 58\<close> bytes,
  where no length arithmetic wraps around).
\<close>

theorem CutOne_exact:
  assumes "length d < 2 ^ 58"
  shows "CutOne (NilFlag # r) = Inr ([NilFlag], r) \<and>
    CutOne (intFlag # EncodeInt [] i @ r) = Inr (intFlag # EncodeInt [] i, r) \<and>
    CutOne (uintFlag # EncodeUint [] u @ r) = Inr (uintFlag # EncodeUint [] u, r) \<and>
    CutOne (varintFlag # EncodeVarint [] i @ r) = Inr (varintFlag # EncodeVarint [] i, r) \<and>
    CutOne (uvarintFlag # EncodeUvarint [] u @ r) = Inr (uvarintFlag # EncodeUvarint [] u, r) \<and>
    CutOne (bytesFlag # EncodeBytes [] d @ r) = Inr (bytesFlag # EncodeBytes [] d, r) \<and>
    CutOne (compactBytesFlag # EncodeCompactBytes [] d @ r) =
      Inr (compactBytesFlag # EncodeCompactBytes [] d, r)"
proof (intro conjI)
  show "CutOne (NilFlag # r) = Inr ([NilFlag], r)"
    by (simp add: CutOne_def peek_def wrap64_id)
  show "CutOne (intFlag # EncodeInt [] i @ r) = Inr (intFlag # EncodeInt [] i, r)"
    by (rule peek_body) (simp_all add: flag_defs)
  show "CutOne (uintFlag # EncodeUint [] u @ r) = Inr (uintFlag # EncodeUint [] u, r)"
    by (rule peek_body) (simp_all add: flag_defs)
  show "CutOne (varintFlag # EncodeVarint [] i @ r) = Inr (varintFlag # EncodeVarint [] i, r)"
    by (rule peek_body, rule le_less_trans [OF length_varint_le(1)])
      (simp_all add: flag_defs peekVarint_Encode)
  show "CutOne (uvarintFlag # EncodeUvarint [] u @ r) = Inr (uvarintFlag # EncodeUvarint [] u, r)"
    by (rule peek_body, rule le_less_trans [OF length_varint_le(2)])
      (simp_all add: flag_defs peekUvarint_Encode)
  have "length (EncodeCompactBytes [] d) < 2 ^ 62"
    using assms length_varint_le(1) [of "word_of_nat (length d)"] by (simp add: EncodeCompactBytes_def)
  then show "CutOne (compactBytesFlag # EncodeCompactBytes [] d @ r) =
      Inr (compactBytesFlag # EncodeCompactBytes [] d, r)"
    using assms by (intro peek_body) (simp_all add: flag_defs peekCompactBytes_Encode)
  show "CutOne (bytesFlag # EncodeBytes [] d @ r) = Inr (bytesFlag # EncodeBytes [] d, r)"
    using assms by (intro peek_body) (simp_all add: flag_defs peekBytes_EncodeBytes length_EncodeBytes)
qed

theorem CutOne_exact_witness:
  "CutOne (bytesFlag # EncodeBytes [] [1, 2] @ [9]) = Inr (bytesFlag # EncodeBytes [] [1, 2], [9])"
  using CutOne_exact [of "[1, 2]" "[9]" 0 0] by simp



end
