(* ===== verification/Kv_Key.thy ===== *)
theory Kv_Key
  imports Codec_Bytes
begin

text \<open>
  \<^verbatim>\<open>kv/key.go\<close>, the keys of the storage layer: successor and prefix successor of a key, and the
  test that a key range holds a single key. The keys are compared as byte strings.
\<close>

section \<open>Keys and ranges\<close>

definition Next :: "bytes \<Rightarrow> bytes" where
  "Next k = k @ [0]"

text \<open>
  The loop of \<^verbatim>\<open>PrefixNext\<close>, from the last byte down; the second result says that every byte
  wrapped around (\<^verbatim>\<open>i == -1\<close>).
\<close>

fun PrefixNext_loop :: "bytes \<Rightarrow> nat \<Rightarrow> bytes \<times> bool" where
  "PrefixNext_loop buf 0 = (buf, True)"
| "PrefixNext_loop buf (Suc i) =
     (let buf' = buf[i := buf ! i + 1]
      in if buf' ! i \<noteq> 0 then (buf', False) else PrefixNext_loop buf' i)"

definition PrefixNext :: "bytes \<Rightarrow> bytes" where
  "PrefixNext k =
     (let (buf, wrapped) = PrefixNext_loop k (length k)
      in if wrapped then k @ [0] else buf)"

definition Cmp :: "bytes \<Rightarrow> bytes \<Rightarrow> int" where
  "Cmp k another = bytes_Compare k another"

definition HasPrefix :: "bytes \<Rightarrow> bytes \<Rightarrow> bool" where
  "HasPrefix k p = bytes_HasPrefix k p"

record KeyRange =
  StartKey :: bytes
  EndKey :: bytes

text \<open>
  The loop of \<^verbatim>\<open>IsPoint\<close> over keys of equal length, from the last byte down: None when a byte
  of the end key is not 0 under a 255 of the start key, otherwise the index at which the loop
  stopped plus one (0 when it ran off the front).
\<close>

fun IsPoint_loop :: "bytes \<Rightarrow> bytes \<Rightarrow> nat \<Rightarrow> nat option" where
  "IsPoint_loop s e 0 = Some 0"
| "IsPoint_loop s e (Suc i) =
     (if s ! i \<noteq> 255 then Some (Suc i)
      else if e ! i \<noteq> 0 then None
      else IsPoint_loop s e i)"

definition IsPoint :: "KeyRange \<Rightarrow> bool" where
  "IsPoint r =
     (if length (StartKey r) \<noteq> length (EndKey r) then
        let startLen = length (StartKey r)
        in startLen + 1 = length (EndKey r) \<and> EndKey r ! startLen = 0 \<and>
           StartKey r = take startLen (EndKey r)
      else
        case IsPoint_loop (StartKey r) (EndKey r) (length (StartKey r)) of
          None \<Rightarrow> False
        | Some 0 \<Rightarrow> False
        | Some (Suc diffOneIdx) \<Rightarrow>
            StartKey r ! diffOneIdx + 1 = EndKey r ! diffOneIdx \<and>
            take diffOneIdx (StartKey r) = take diffOneIdx (EndKey r))"

section \<open>Successors\<close>

lemma trailing_split:
  fixes k :: bytes
  obtains (all) n where "k = replicate n 255"
    | (split) p b n where "k = p @ b # replicate n 255" "b \<noteq> 255"
proof -
  have "(\<exists>n. k = replicate n 255) \<or> (\<exists>p b n. k = p @ b # replicate n 255 \<and> b \<noteq> 255)"
  proof (induction k)
    case Nil
    have "[] = replicate 0 (255 :: byte)" by simp
    then show ?case by blast
  next
    case (Cons a k)
    then consider n where "k = replicate n 255" | p b n where "k = p @ b # replicate n 255" "b \<noteq> 255"
      by blast
    then show ?case
    proof cases
      case 1
      show ?thesis
      proof (cases "a = 255")
        case True
        then have "a # k = replicate (Suc n) 255" using 1 by simp
        then show ?thesis by blast
      next
        case False
        then have "a # k = [] @ a # replicate n 255 \<and> a \<noteq> 255" using 1 by simp
        then show ?thesis by blast
      qed
    next
      case 2
      then have "a # k = (a # p) @ b # replicate n 255 \<and> b \<noteq> 255" by simp
      then show ?thesis by blast
    qed
  qed
  then show thesis using all split by blast
qed

lemma byte_succ_0: "(x :: byte) + 1 = 0 \<longleftrightarrow> x = 255"
proof
  assume "x + 1 = 0"
  then have "x + 1 - 1 = 0 - 1" by (simp only:)
  then show "x = 255" by (simp only: add_diff_cancel_right') simp
qed simp

lemma byte_less_succ: "(b :: byte) \<noteq> 255 \<Longrightarrow> x < b + 1 \<longleftrightarrow> x \<le> b"
proof -
  assume "b \<noteq> 255"
  then have "unat b \<noteq> unat (255 :: byte)" by (metis word_unat_eq_iff)
  then have "unat b \<noteq> 255" by simp
  then have "unat b < 255" using unat_byte_less [of b] by linarith
  then have "unat b + unat (1 :: byte) < 2 ^ LENGTH(8)" by simp
  then have "unat (b + 1) = unat b + 1" by (simp add: iffD1 [OF unat_add_lem])
  then show ?thesis by (auto simp: word_less_nat_alt word_le_nat_alt)
qed

lemma replicate_snoc: "replicate n x @ [x] = x # replicate n x"
  by (induction n) auto

lemma PrefixNext_loop_trailing:
  "PrefixNext_loop (p @ replicate n 255 @ s) (length p + n) =
   PrefixNext_loop (p @ replicate n 0 @ s) (length p)"
proof (induction n arbitrary: s)
  case (Suc n)
  have eq: "p @ replicate (Suc n) 255 @ s = p @ replicate n 255 @ (255 # s)" for s :: bytes
    using replicate_snoc [of n "255 :: byte"] by simp
  have upd: "(p @ replicate n 255 @ (255 # s))[length p + n := x] = p @ replicate n 255 @ (x # s)"
    for x :: byte by (simp add: list_update_append)
  have nth: "(p @ replicate n 255 @ (x # s)) ! (length p + n) = x" for x :: byte
    by (simp add: nth_append)
  have wrap: "(255 :: byte) + 1 = 0" by simp
  have "PrefixNext_loop (p @ replicate (Suc n) 255 @ s) (length p + Suc n) =
      PrefixNext_loop (p @ replicate n 255 @ (0 # s)) (length p + n)"
    by (simp only: eq add_Suc_right PrefixNext_loop.simps upd nth Let_def wrap) simp
  also have "\<dots> = PrefixNext_loop (p @ replicate n 0 @ (0 # s)) (length p)"
    by (rule Suc.IH)
  also have "p @ replicate n 0 @ (0 # s) = p @ replicate (Suc n) 0 @ s"
    using replicate_snoc [of n "0 :: byte"] by simp
  finally show ?case .
qed simp

lemma PrefixNext_all: "PrefixNext (replicate n 255) = replicate n 255 @ [0]"
  using PrefixNext_loop_trailing [of "[]" n "[]"] by (simp add: PrefixNext_def)

lemma PrefixNext_split:
  assumes "b \<noteq> 255"
  shows "PrefixNext (p @ b # replicate n 255) = p @ (b + 1) # replicate n 0"
proof -
  have "PrefixNext_loop (p @ b # replicate n 255) (length p + Suc n) =
      PrefixNext_loop (p @ b # replicate n 0) (Suc (length p))"
    using PrefixNext_loop_trailing [of "p @ [b]" n "[]"] by simp
  also have "\<dots> = (p @ (b + 1) # replicate n 0, False)"
    using assms by (simp add: nth_append list_update_append Let_def byte_succ_0)
  finally show ?thesis
    by (simp add: PrefixNext_def)
qed

lemma IsPoint_loop_trailing:
  "length e = length p + n \<Longrightarrow>
   IsPoint_loop (p @ replicate n 255) e (length p + n) =
     (if drop (length p) e = replicate n 0 then IsPoint_loop (p @ replicate n 255) e (length p) else None)"
proof -
  have "m \<le> n \<Longrightarrow> length e = length p + n \<Longrightarrow>
   IsPoint_loop (p @ replicate n 255) e (length p + m) =
     (if take m (drop (length p) e) = replicate m 0 then IsPoint_loop (p @ replicate n 255) e (length p) else None)"
    for m
  proof (induction m)
    case (Suc m)
    have t: "take (Suc m) (drop (length p) e) = take m (drop (length p) e) @ [e ! (length p + m)]"
      using Suc.prems by (simp add: take_Suc_conv_app_nth)
    have r: "replicate (Suc m) (0 :: byte) = replicate m 0 @ [0]"
      by (simp only: replicate_snoc replicate_Suc)
    show ?case
      using Suc by (simp add: nth_append t r del: replicate_Suc)
  qed simp
  from this [of n] show "length e = length p + n \<Longrightarrow> ?thesis" by simp
qed

lemma IsPoint_same_length:
  assumes "length s = length e"
  shows "IsPoint \<lparr>StartKey = s, EndKey = e\<rparr> \<longleftrightarrow> e = PrefixNext s"
proof (cases s rule: trailing_split)
  case (all n)
  then show ?thesis
    using assms IsPoint_loop_trailing [of e "[]" n] 
    by (auto simp: IsPoint_def PrefixNext_all dest: arg_cong [of e _ length])
next
  case (split p b n)
  then have len: "length e = length (p @ [b]) + n" using assms by simp
  have s: "s = (p @ [b]) @ replicate n 255" using split by simp
  have loop: "IsPoint_loop s e (length s) =
      (if drop (Suc (length p)) e = replicate n 0 then Some (Suc (length p)) else None)"
    using IsPoint_loop_trailing [OF len] split unfolding s by (simp add: nth_append)
  have "e = PrefixNext s \<longleftrightarrow>
      take (length p) e = p \<and> e ! length p = b + 1 \<and> drop (Suc (length p)) e = replicate n 0"
  proof -
    have "e = take (length p) e @ e ! length p # drop (Suc (length p)) e"
      using len by (simp add: id_take_nth_drop)
    moreover have "length (take (length p) e) = length p" using len by simp
    ultimately show ?thesis
      using split PrefixNext_split [of b p n] by (metis append_eq_append_conv list.inject)
  qed
  then show ?thesis
    using assms split(1) loop by (auto simp: IsPoint_def nth_append split: if_splits)
qed

lemma IsPoint_diff_length:
  assumes "length s \<noteq> length e"
  shows "IsPoint \<lparr>StartKey = s, EndKey = e\<rparr> \<longleftrightarrow> e = Next s"
proof -
  have "e = Next s \<longleftrightarrow> length e = length s + 1 \<and> e ! length s = 0 \<and> s = take (length s) e"
  proof
    assume *: "length e = length s + 1 \<and> e ! length s = 0 \<and> s = take (length s) e"
    then have "e = take (length s) e @ [e ! length s]"
      by (metis Suc_eq_plus1 lessI order_refl take_Suc_conv_app_nth take_all)
    then show "e = Next s" using * by (simp add: Next_def)
  qed (auto simp: Next_def)
  then show ?thesis
    using assms by (auto simp: IsPoint_def)
qed

lemma gr_Nil: "[] < (x :: bytes) \<longleftrightarrow> x \<noteq> []"
  by (cases x) auto

lemma Next_le_iff: "Next k \<le> x \<longleftrightarrow> k < x"
proof (induction k arbitrary: x)
  case Nil
  then show ?case by (cases x) (auto simp: Next_def le_less word_neq_0_conv [symmetric] gr_Nil)
next
  case (Cons a k)
  then show ?case by (cases x) (auto simp: Next_def)
qed

lemma le_max_prefix: "replicate n (255 :: byte) \<le> x \<longleftrightarrow> (\<exists>r. x = replicate n 255 @ r)"
proof (induction n arbitrary: x)
  case (Suc n)
  have "unat y \<le> 255" for y :: byte
    using unat_byte_less [of y] by linarith
  then have max: "\<not> 255 < y" for y :: byte
    by (simp add: word_less_nat_alt not_less)
  show ?case
    using Suc by (cases x) (auto simp: max)
qed simp

lemma less_zeros: "x < replicate n (0 :: byte) \<longleftrightarrow> (\<exists>j<n. x = replicate j 0)"
proof (induction n arbitrary: x)
  case (Suc n)
  show ?case
  proof (cases x)
    case Nil
    then show ?thesis by (auto intro: exI [of _ 0])
  next
    case (Cons y ys)
    have "(\<exists>j<Suc n. y # ys = replicate j 0) \<longleftrightarrow> (\<exists>j<n. y # ys = replicate (Suc j) 0)"
      by (auto simp: Cons_replicate_eq less_Suc_eq_0_disj)
    then show ?thesis using Suc Cons by (auto simp: Cons_replicate_eq)
  qed
qed simp

lemma between_prefix:
  fixes b :: byte
  assumes "b \<noteq> 255"
  shows "p @ b # replicate n 255 \<le> x \<and> x < p @ (b + 1) # replicate n 0 \<longleftrightarrow>
    (\<exists>r. x = (p @ b # replicate n 255) @ r) \<or> (\<exists>j<n. x = p @ (b + 1) # replicate j 0)"
proof (induction p arbitrary: x)
  case Nil
  have "b < b + 1" "b \<noteq> b + 1" "\<And>y. b < y \<Longrightarrow> y \<le> b + 1 \<Longrightarrow> y = b + 1"
    using assms by (auto simp: byte_less_succ le_less)
  then show ?case
    using assms by (cases x) (auto simp: byte_less_succ le_max_prefix less_zeros)
next
  case (Cons a p)
  then show ?case by (cases x) auto
qed

section \<open>Properties\<close>

text \<open>
  C11: the half-open ranges built from a key. \<^verbatim>\<open>Next\<close> is the immediate
  successor: no key lies between. The range from a key up to \<^verbatim>\<open>PrefixNext\<close> holds, among the keys at
  least as long as the key, exactly the keys with that prefix; for a key of 255 bytes only, it holds
  the key alone.
\<close>

theorem Next_PrefixNext_range:
  "(k < x \<longleftrightarrow> Next k \<le> x) \<and>
   (length k \<le> length x \<and> k \<le> x \<and> x < PrefixNext k \<longleftrightarrow>
      (if set k \<subseteq> {255} then x = k else HasPrefix x k))"
proof (intro conjI)
  show "length k \<le> length x \<and> k \<le> x \<and> x < PrefixNext k \<longleftrightarrow>
      (if set k \<subseteq> {255} then x = k else HasPrefix x k)"
  proof (cases k rule: trailing_split)
    case (all n)
    have "x < PrefixNext k \<longleftrightarrow> \<not> k < x"
      using all Next_le_iff [of k x] by (simp add: PrefixNext_all Next_def not_le [symmetric])
    then show ?thesis using all by auto
  next
    case (split p b n)
    then show ?thesis
      using between_prefix [of b p n x]
      by (auto simp: PrefixNext_split HasPrefix_def bytes_HasPrefix_iff)
  qed
qed (simp only: Next_le_iff)

text \<open>
  C12: \<^verbatim>\<open>IsPoint\<close>, which allocates nothing, decides that the end key is the
  successor or the prefix successor of the start key, as its comments say.
\<close>

theorem IsPoint_equiv:
  "IsPoint r \<longleftrightarrow> EndKey r = Next (StartKey r) \<or> EndKey r = PrefixNext (StartKey r)"
proof (cases r)
  case (fields s e)
  have "length e = length s \<Longrightarrow> e \<noteq> Next s" by (auto simp: Next_def)
  moreover have "length e \<noteq> length s \<Longrightarrow> e = PrefixNext s \<Longrightarrow> e = Next s"
    by (cases s rule: trailing_split) (auto simp: Next_def PrefixNext_all PrefixNext_split)
  ultimately show ?thesis
    using fields IsPoint_same_length [of s e] IsPoint_diff_length [of s e]
    by (cases "length e = length s") auto
qed

end
