(* ===== verification/Kv_Handle.thy ===== *)
theory Kv_Handle
  imports Kv_Key Codec_Peek "HOL-Library.Mapping"
begin

text \<open>
  \<^verbatim>\<open>kv/key.go\<close>, the row handles: integer handles, common handles (the encoded columns of a clustered
  primary key), handles with a partition, and the map keyed by handles. A method that panics
  returns None.
\<close>

section \<open>Handles\<close>

datatype handle =
    IntHandle i64
  | CommonHandle (encoded: bytes) (colEndOffsets: "16 word list")
  | PartitionHandle handle i64

fun IsInt :: "handle \<Rightarrow> bool" where
  "IsInt (IntHandle _) = True"
| "IsInt (CommonHandle _ _) = False"
| "IsInt (PartitionHandle h _) = IsInt h"

fun IntValue :: "handle \<Rightarrow> i64 option" where
  "IntValue (IntHandle ih) = Some ih"
| "IntValue (CommonHandle _ _) = None"
| "IntValue (PartitionHandle h _) = IntValue h"

fun Encoded :: "handle \<Rightarrow> bytes" where
  "Encoded (IntHandle ih) = EncodeInt [] ih"
| "Encoded (CommonHandle enc _) = enc"
| "Encoded (PartitionHandle h _) = Encoded h"

text \<open>A \<^verbatim>\<open>PartitionHandle\<close> has the \<^verbatim>\<open>Next\<close> of the handle it embeds.\<close>

fun handle_Next :: "handle \<Rightarrow> handle" where
  "handle_Next (IntHandle ih) = IntHandle (ih + 1)"
| "handle_Next (CommonHandle enc offs) = CommonHandle (PrefixNext enc) offs"
| "handle_Next (PartitionHandle h _) = handle_Next h"

fun handle_Equal :: "handle \<Rightarrow> handle \<Rightarrow> bool" where
  "handle_Equal (IntHandle ih) h \<longleftrightarrow> IsInt h \<and> Some ih = IntValue h"
| "handle_Equal (CommonHandle enc _) h \<longleftrightarrow> \<not> IsInt h \<and> enc = Encoded h"
| "handle_Equal (PartitionHandle h1 p1) (PartitionHandle h2 p2) \<longleftrightarrow> p1 = p2 \<and> handle_Equal h1 h2"
| "handle_Equal (PartitionHandle _ _) _ \<longleftrightarrow> False"

fun handle_Compare :: "handle \<Rightarrow> handle \<Rightarrow> int option" where
  "handle_Compare (IntHandle ih) h =
     (if \<not> IsInt h then None
      else case IntValue h of None \<Rightarrow> None
        | Some hVal \<Rightarrow> Some (if sint ih > sint hVal then 1 else if sint ih < sint hVal then -1 else 0))"
| "handle_Compare (CommonHandle enc _) h =
     (if IsInt h then None else Some (bytes_Compare enc (Encoded h)))"
| "handle_Compare (PartitionHandle h1 p1) (PartitionHandle h2 p2) =
     (if sint p1 < sint p2 then Some (-1)
      else if sint p1 > sint p2 then Some 1
      else handle_Compare h1 h2)"
| "handle_Compare (PartitionHandle _ _) _ = None"

fun handle_Len :: "handle \<Rightarrow> nat" where
  "handle_Len (IntHandle _) = 8"
| "handle_Len (CommonHandle enc _) = length enc"
| "handle_Len (PartitionHandle h _) = handle_Len h"

fun NumCols :: "handle \<Rightarrow> nat option" where
  "NumCols (IntHandle _) = None"
| "NumCols (CommonHandle _ offs) = Some (length offs)"
| "NumCols (PartitionHandle h _) = NumCols h"

text \<open>\<^verbatim>\<open>EncodedCol\<close> panics outside the columns and on offsets that are out of order.\<close>

fun EncodedCol :: "handle \<Rightarrow> nat \<Rightarrow> bytes option" where
  "EncodedCol (IntHandle _) _ = None"
| "EncodedCol (CommonHandle enc offs) idx =
     (if idx \<ge> length offs then None
      else
        let colStartOffset = (if idx > 0 then unat (offs ! (idx - 1)) else 0);
            colEndOffset = unat (offs ! idx)
        in if colStartOffset \<le> colEndOffset \<and> colEndOffset \<le> length enc
           then Some (take (colEndOffset - colStartOffset) (drop colStartOffset enc))
           else None)"
| "EncodedCol (PartitionHandle h _) idx = EncodedCol h idx"

text \<open>The loop of \<^verbatim>\<open>NewCommonHandle\<close>; the offsets are 16-bit and wrap around.\<close>

function NewCommonHandle_loop :: "bytes \<Rightarrow> 16 word \<Rightarrow> codec_error + 16 word list" where
  "NewCommonHandle_loop remain endOff =
     (if remain = [] then Inr []
      else if hd remain = 0 then Inr []
      else case CutOne remain of
          Inl err \<Rightarrow> Inl err
        | Inr (col, remain') \<Rightarrow>
            let endOff' = endOff + of_nat (length col)
            in case NewCommonHandle_loop remain' endOff' of
                 Inl err \<Rightarrow> Inl err
               | Inr offs \<Rightarrow> Inr (endOff' # offs))"
  by pat_completeness auto
termination
proof (relation "measure (\<lambda>(remain, _). length remain)")
  fix remain :: bytes and endOff endOff' :: "16 word" and p col remain'
  assume "CutOne remain = Inr p" "(col, remain') = p"
  then have "col @ remain' = remain \<and> col \<noteq> []"
    by (intro CutOne_split) simp
  then show "((remain', endOff'), (remain, endOff)) \<in> measure (\<lambda>(remain, _). length remain)"
    by auto
qed simp

declare NewCommonHandle_loop.simps [simp del]

definition NewCommonHandle :: "bytes \<Rightarrow> codec_error + handle" where
  "NewCommonHandle enc =
     (let ch_encoded = (if length enc < 9 then enc @ replicate (9 - length enc) 0 else enc)
      in res_bind (NewCommonHandle_loop enc 0) (\<lambda>offs. Inr (CommonHandle ch_encoded offs)))"

section \<open>Maps keyed by handles\<close>

record 'v HandleMap =
  ints :: "(i64, 'v) mapping"
  strs :: "(bytes, handle \<times> 'v) mapping"

definition NewHandleMap :: "'v HandleMap" where
  "NewHandleMap = \<lparr>ints = Mapping.empty, strs = Mapping.empty\<rparr>"

text \<open>The int key of a handle whose \<^verbatim>\<open>IsInt\<close> holds is always there.\<close>

definition HandleMap_Get :: "'v HandleMap \<Rightarrow> handle \<Rightarrow> 'v option" where
  "HandleMap_Get m h =
     (if IsInt h then Mapping.lookup (ints m) (the (IntValue h))
      else map_option snd (Mapping.lookup (strs m) (Encoded h)))"

definition HandleMap_Set :: "'v HandleMap \<Rightarrow> handle \<Rightarrow> 'v \<Rightarrow> 'v HandleMap" where
  "HandleMap_Set m h val =
     (if IsInt h then m\<lparr>ints := Mapping.update (the (IntValue h)) val (ints m)\<rparr>
      else m\<lparr>strs := Mapping.update (Encoded h) (h, val) (strs m)\<rparr>)"

definition HandleMap_Delete :: "'v HandleMap \<Rightarrow> handle \<Rightarrow> 'v HandleMap" where
  "HandleMap_Delete m h =
     (if IsInt h then m\<lparr>ints := Mapping.delete (the (IntValue h)) (ints m)\<rparr>
      else m\<lparr>strs := Mapping.delete (Encoded h) (strs m)\<rparr>)"

definition HandleMap_Len :: "'v HandleMap \<Rightarrow> nat" where
  "HandleMap_Len m = Mapping.size (ints m) + Mapping.size (strs m)"

section \<open>Order of handles\<close>

fun plain :: "handle \<Rightarrow> bool" where
  "plain (PartitionHandle _ _) \<longleftrightarrow> False"
| "plain _ \<longleftrightarrow> True"

lemma IsInt_IntValue: "IsInt h \<longleftrightarrow> (\<exists>v. IntValue h = Some v)"
  by (induction h) auto

lemma IntValue_Encoded: "IntValue h = Some v \<Longrightarrow> Encoded h = EncodeInt [] v"
  by (induction h) auto

lemma Compare_plain:
  assumes "plain h1" "plain h2" "IsInt h1 \<longleftrightarrow> IsInt h2"
  shows "handle_Compare h1 h2 = Some (bytes_Compare (Encoded h1) (Encoded h2))"
  using assms
  by (cases h1; cases h2)
    (auto simp: bytes_Compare_def codec_int.enc_order codec_int.enc_inject not_less le_less sint_inject)

section \<open>Columns of a common handle\<close>

text \<open>The end offsets of consecutive columns, counted from \<^verbatim>\<open>a\<close>.\<close>

fun ends :: "nat \<Rightarrow> bytes list \<Rightarrow> nat list" where
  "ends a [] = []"
| "ends a (c # cs) = (a + length c) # ends (a + length c) cs"

lemma length_ends [simp]: "length (ends a cs) = length cs"
  by (induction cs arbitrary: a) auto

lemma NewCommonHandle_loop_ends:
  assumes "NewCommonHandle_loop remain (word_of_nat a) = Inr offs" "a + length remain < 2 ^ 16"
  shows "\<exists>cols pad. remain = concat cols @ pad \<and> (pad = [] \<or> hd pad = 0) \<and>
    offs = map word_of_nat (ends a cols)"
  using assms
proof (induction remain arbitrary: a offs rule: length_induct)
  case (1 remain)
  show ?case
  proof (cases "remain = [] \<or> hd remain = 0")
    case True
    then have "remain = concat [] @ remain \<and> (remain = [] \<or> hd remain = 0) \<and>
        offs = map word_of_nat (ends a [])"
      using "1.prems"(1) by (subst (asm) NewCommonHandle_loop.simps) (auto split: if_splits)
    then show ?thesis by blast
  next
    case False
    with "1.prems"(1) obtain col rem offs' where cut: "CutOne remain = Inr (col, rem)"
      and rec: "NewCommonHandle_loop rem (word_of_nat (a + length col)) = Inr offs'"
      and offs: "offs = word_of_nat (a + length col) # offs'"
      by (subst (asm) NewCommonHandle_loop.simps) (auto simp: Let_def split: sum.splits)
    have split: "remain = col @ rem" and less: "length rem < length remain"
      using CutOne_split [OF cut] by auto
    have "\<exists>cols pad. rem = concat cols @ pad \<and> (pad = [] \<or> hd pad = 0) \<and>
        offs' = map word_of_nat (ends (a + length col) cols)"
    proof -
      have "(a + length col) + length rem < 2 ^ 16"
        using "1.prems"(2) split by simp
      with less rec "1.IH" show ?thesis by blast
    qed
    then obtain cols pad where "rem = concat cols @ pad" "pad = [] \<or> hd pad = 0"
        "offs' = map word_of_nat (ends (a + length col) cols)" by blast
    then have "remain = concat (col # cols) @ pad \<and> (pad = [] \<or> hd pad = 0) \<and>
        offs = map word_of_nat (ends a (col # cols))"
      using split offs by simp
    then show ?thesis by blast
  qed
qed

lemma ends_nth:
  "i < length cs \<Longrightarrow> ends a cs ! i = a + length (concat (take (Suc i) cs))"
proof (induction cs arbitrary: a i)
  case (Cons c cs)
  then show ?case by (cases i) auto
qed simp

lemma EncodedCol_ends:
  assumes "i < length cs" "length (concat cs) < 2 ^ 16"
  shows "EncodedCol (CommonHandle (concat cs @ pad) (map word_of_nat (ends 0 cs))) i = Some (cs ! i)"
proof -
  have unat: "unat (word_of_nat n :: 16 word) = n" if "n < 2 ^ 16" for n
    using that by (simp add: unat_of_nat)
  have tk: "length (concat (take j cs)) < 2 ^ 16" for j
  proof -
    have "length (concat cs) = length (concat (take j cs)) + length (concat (drop j cs))"
      by (metis append_take_drop_id concat_append length_append)
    then show ?thesis using assms(2) by simp
  qed
  have all: "concat cs = concat (take i cs) @ cs ! i @ concat (drop (Suc i) cs)"
    using assms(1) by (metis append.assoc append_take_drop_id concat.simps(2) concat_append id_take_nth_drop)
  have start: "(if i > 0 then unat (map word_of_nat (ends 0 cs) ! (i - 1) :: 16 word) else 0) =
      length (concat (take i cs))"
    using assms(1) tk [of i] by (cases i) (simp_all add: ends_nth unat)
  have stop: "unat (map word_of_nat (ends 0 cs) ! i :: 16 word) = length (concat (take i cs)) + length (cs ! i)"
    using assms(1) tk [of "Suc i"] by (simp add: ends_nth unat take_Suc_conv_app_nth del: of_nat_add)
  show ?thesis
    using assms(1) unfolding EncodedCol.simps Let_def start stop by (simp add: all)
qed

section \<open>Properties\<close>



text \<open>
  C17: \<^verbatim>\<open>Equal\<close> is not symmetric once partitions are involved: a plain handle
  equals every partition handle around it, none of which equals the plain handle; and the map keyed
  by handles cannot tell two partitions apart.
\<close>

theorem handle_Equal_asymmetric:
  "handle_Equal (IntHandle v) (PartitionHandle (IntHandle v) p) \<and>
   \<not> handle_Equal (PartitionHandle (IntHandle v) p) (IntHandle v) \<and>
   HandleMap_Get (HandleMap_Set m (PartitionHandle (IntHandle v) p) x) (PartitionHandle (IntHandle v) q) = Some x"
  by (simp add: HandleMap_Get_def HandleMap_Set_def)

text \<open>
  C18: a common handle built from fewer than 65536 bytes has its columns back:
  \<^verbatim>\<open>EncodedCol\<close> never panics on a column index, and the columns in order are the encoded bytes up to
  the zero padding.
\<close>

theorem NewCommonHandle_columns:
  assumes "NewCommonHandle enc = Inr h" "length enc < 2 ^ 16"
  shows "\<exists>cols pad. enc = concat cols @ pad \<and> (pad = [] \<or> hd pad = 0) \<and>
    NumCols h = Some (length cols) \<and> map (EncodedCol h) [0..<length cols] = map Some cols"
proof -
  let ?enc = "if length enc < 9 then enc @ replicate (9 - length enc) 0 else enc"
  obtain offs where loop: "NewCommonHandle_loop enc 0 = Inr offs" and h: "h = CommonHandle ?enc offs"
    using assms(1) by (auto simp: NewCommonHandle_def res_bind_def Let_def split: sum.splits)
  obtain cols pad where cols: "enc = concat cols @ pad" "pad = [] \<or> hd pad = 0"
      "offs = map word_of_nat (ends 0 cols)"
    using NewCommonHandle_loop_ends [of enc 0 offs] loop assms(2) by auto
  obtain pad' where enc: "?enc = concat cols @ pad'"
    using cols(1) by (cases "length enc < 9") auto
  have "EncodedCol h i = Some (cols ! i)" if "i < length cols" for i
    using EncodedCol_ends [OF that, of pad'] assms(2) cols(1) unfolding h enc cols(3) by simp
  then have "map (EncodedCol h) [0..<length cols] = map Some cols"
    by (intro nth_equalityI) auto
  moreover have "NumCols h = Some (length cols)"
    using h cols(3) by simp
  ultimately show ?thesis using cols(1,2) by blast
qed

theorem NewCommonHandle_columns_witness:
  "\<exists>cols pad. [intFlag, 128, 0, 0, 0, 0, 0, 0, 7] = concat cols @ pad \<and> (pad = [] \<or> hd pad = 0) \<and>
    NumCols (CommonHandle [intFlag, 128, 0, 0, 0, 0, 0, 0, 7] [9]) = Some (length cols) \<and>
    map (EncodedCol (CommonHandle [intFlag, 128, 0, 0, 0, 0, 0, 0, 7] [9])) [0..<length cols] = map Some cols"
proof (rule NewCommonHandle_columns)
  have "CutOne [intFlag, 128, 0, 0, 0, 0, 0, 0, 7] = Inr ([intFlag, 128, 0, 0, 0, 0, 0, 0, 7], [])"
    by (simp add: CutOne_def peek_def flag_defs wrap64_id)
  then show "NewCommonHandle [intFlag, 128, 0, 0, 0, 0, 0, 0, 7] =
      Inr (CommonHandle [intFlag, 128, 0, 0, 0, 0, 0, 0, 7] [9])"
    by (simp add: NewCommonHandle_def NewCommonHandle_loop.simps flag_defs)
qed simp

end
