(* ===== verification/Strconv.thy ===== *)
theory Strconv
  imports Go_Std
begin

text \<open>
  Package \<^verbatim>\<open>strconv\<close>, base 10 and 64 bits: \<^verbatim>\<open>FormatInt(v, 10)\<close> and \<^verbatim>\<open>ParseInt(s, 10, 64)\<close> over the
  bytes of the string, and that parsing reads back what was formatted.
\<close>

datatype num_error = ErrSyntax | ErrRange

function formatBits :: "nat \<Rightarrow> bytes" where
  "formatBits n = (if n < 10 then [word_of_nat (48 + n)] else formatBits (n div 10) @ [word_of_nat (48 + n mod 10)])"
  by pat_completeness auto
termination
  by (relation "measure id") auto

declare formatBits.simps [simp del]

definition FormatInt :: "i64 \<Rightarrow> bytes" where
  "FormatInt v =
     (if sint v < 0 then 45 # formatBits (nat (- sint v)) else formatBits (nat (sint v)))"

definition maxUint64 :: nat where "maxUint64 = 18446744073709551615"

fun ParseUint_loop :: "nat \<Rightarrow> bytes \<Rightarrow> num_error + nat" where
  "ParseUint_loop n [] = Inr n"
| "ParseUint_loop n (c # cs) =
     (if \<not> (48 \<le> unat c \<and> unat c \<le> 57) then Inl ErrSyntax
      else if n \<ge> maxUint64 div 10 + 1 then Inl ErrRange
      else let n1 = n * 10 + (unat c - 48)
           in if n1 > maxUint64 then Inl ErrRange else ParseUint_loop n1 cs)"

definition ParseUint :: "bytes \<Rightarrow> num_error + nat" where
  "ParseUint s = (if s = [] then Inl ErrSyntax else ParseUint_loop 0 s)"

definition ParseInt :: "bytes \<Rightarrow> num_error + i64" where
  "ParseInt s =
     (if s = [] then Inl ErrSyntax
      else
        let neg = (hd s = 45);
            rest = (if hd s = 43 \<or> hd s = 45 then tl s else s)
        in res_bind (ParseUint rest) (\<lambda>un.
          if \<not> neg \<and> un \<ge> 2 ^ 63 then Inl ErrRange
          else if neg \<and> un > 2 ^ 63 then Inl ErrRange
          else Inr (if neg then - word_of_nat un else word_of_nat un)))"

lemma digit_byte: "d < 10 \<Longrightarrow> unat (word_of_nat (48 + d) :: byte) = 48 + d"
  by (simp add: unat_of_nat del: of_nat_add)

lemma formatBits_nonempty: "formatBits n \<noteq> []"
  by (subst formatBits.simps) simp

lemma formatBits_step:
  "10 \<le> n \<Longrightarrow> formatBits n = formatBits (n div 10) @ [word_of_nat (48 + n mod 10)]"
  "n < 10 \<Longrightarrow> formatBits n = [word_of_nat (48 + n)]"
  by (subst formatBits.simps, simp)+

lemma ParseUint_loop_append:
  "ParseUint_loop n (xs @ ys) = res_bind (ParseUint_loop n xs) (\<lambda>m. ParseUint_loop m ys)"
  by (induction xs arbitrary: n) (simp_all add: Let_def)

lemma ParseUint_loop_digit:
  assumes "d < 10" "n * 10 + d \<le> maxUint64"
  shows "ParseUint_loop n [word_of_nat (48 + d)] = Inr (n * 10 + d)"
proof -
  have "\<not> maxUint64 div 10 + 1 \<le> n"
    using assms(2) by (simp add: maxUint64_def)
  then show ?thesis
    using assms digit_byte [OF assms(1)] by (simp add: Let_def del: of_nat_add)
qed

lemma ParseUint_loop_formatBits: "n \<le> maxUint64 \<Longrightarrow> ParseUint_loop 0 (formatBits n) = Inr n"
proof (induction n rule: less_induct)
  case (less n)
  show ?case
  proof (cases "n < 10")
    case True
    then show ?thesis
      using ParseUint_loop_digit [of n 0] less.prems by (simp only: formatBits_step) simp
  next
    case False
    then have "ParseUint_loop 0 (formatBits (n div 10)) = Inr (n div 10)"
      using less by simp
    then show ?thesis
      using False less.prems ParseUint_loop_digit [of "n mod 10" "n div 10"]
      by (simp add: formatBits_step ParseUint_loop_append del: of_nat_add)
  qed
qed

lemma hd_formatBits: "48 \<le> unat (hd (formatBits n)) \<and> unat (hd (formatBits n)) \<le> 57"
proof (induction n rule: less_induct)
  case (less n)
  show ?case
  proof (cases "n < 10")
    case True
    then show ?thesis using digit_byte [of n] by (simp add: formatBits_step del: of_nat_add)
  next
    case False
    then show ?thesis using less [of "n div 10"] formatBits_nonempty [of "n div 10"]
      by (simp add: formatBits_step)
  qed
qed

lemma ParseInt_FormatInt [simp]: "ParseInt (FormatInt v) = Inr v"
proof (cases "sint v < 0")
  case True
  let ?n = "nat (- sint v)"
  have n: "?n \<le> 2 ^ 63" "int ?n = - sint v"
    using True sint_i64_bounds [of v] by (simp_all add: nat_le_iff)
  have "- word_of_nat ?n = v"
  proof -
    have "(- word_of_nat ?n :: i64) = word_of_int (- int ?n)" by simp
    also have "\<dots> = v" by (simp only: n(2)) simp
    finally show ?thesis .
  qed
  then show ?thesis
    using True n(1) ParseUint_loop_formatBits [of ?n] formatBits_nonempty [of ?n]
    by (simp add: ParseInt_def FormatInt_def ParseUint_def maxUint64_def)
next
  case False
  let ?n = "nat (sint v)"
  have n: "?n < 2 ^ 63" "int ?n = sint v"
    using False sint_i64_bounds [of v] by (simp_all add: nat_less_iff)
  have "word_of_nat ?n = v"
  proof -
    have "(word_of_nat ?n :: i64) = word_of_int (int ?n)" by simp
    also have "\<dots> = v" by (simp only: n(2)) simp
    finally show ?thesis .
  qed
  moreover have "hd (formatBits ?n) \<noteq> 45" "hd (formatBits ?n) \<noteq> 43"
    using hd_formatBits [of ?n] by auto
  ultimately show ?thesis
    using False n(1) ParseUint_loop_formatBits [of ?n] formatBits_nonempty [of ?n]
    by (simp add: ParseInt_def FormatInt_def ParseUint_def maxUint64_def)
qed

lemma FormatInt_nonempty [simp]: "FormatInt v \<noteq> []"
  by (simp add: FormatInt_def formatBits_nonempty)

end
