(* ===== verification/Kv_Store.thy ===== *)
theory Kv_Store
  imports Kv_Key Strconv "HOL-Library.AList"
begin

text \<open>
  The storage interface of \<^verbatim>\<open>kv/kv.go\<close> (\<^verbatim>\<open>Retriever\<close>, \<^verbatim>\<open>Mutator\<close>, \<^verbatim>\<open>Iterator\<close>), the helpers of
  \<^verbatim>\<open>kv/utils.go\<close> over it, and the contract the interface documents. The transactions behind the
  interface are client code outside the repository, so the operations are a record that every
  definition takes as an argument; what the comments of the interface promise is the locale
  \<^verbatim>\<open>kv_store\<close>.
\<close>

section \<open>Results with state\<close>

datatype tx_error =
    ErrNotExist
  | ErrCannotSetNilValue
  | KvFault string
  | ErrWriteOnSnapshot
  | ErrInvalidListMetaData
  | ErrInvalidListIndex i64
  | ErrInvalidHashKeyFlag byte
  | InvalidHashKeyPrefix
  | NilWriter
  | CodecErr codec_error
  | NumErr num_error

text \<open>An operation on a store returns an error or a value, and the store it leaves behind.\<close>

type_synonym ('s, 'a) tx = "'s \<Rightarrow> (tx_error + 'a) \<times> 's"

definition tx_return :: "'a \<Rightarrow> ('s, 'a) tx" where
  "tx_return x = (\<lambda>s. (Inr x, s))"

definition tx_fail :: "tx_error \<Rightarrow> ('s, 'a) tx" where
  "tx_fail e = (\<lambda>s. (Inl e, s))"

definition tx_bind :: "('s, 'a) tx \<Rightarrow> ('a \<Rightarrow> ('s, 'b) tx) \<Rightarrow> ('s, 'b) tx" where
  "tx_bind m f = (\<lambda>s. case m s of (Inl e, s') \<Rightarrow> (Inl e, s') | (Inr x, s') \<Rightarrow> f x s')"

definition tx_lift :: "tx_error + 'a \<Rightarrow> ('s, 'a) tx" where
  "tx_lift r = (\<lambda>s. (r, s))"

lemma tx_apply [simp]:
  "tx_return x s = (Inr x, s)" "tx_fail e s = (Inl e, s)" "tx_lift r s = (r, s)"
  by (simp_all add: tx_return_def tx_fail_def tx_lift_def)

lemma tx_bind_apply:
  "m s = (Inr x, s') \<Longrightarrow> tx_bind m f s = f x s'"
  "m s = (Inl e, s') \<Longrightarrow> tx_bind m f s = (Inl e, s')"
  by (simp_all add: tx_bind_def)

lemma tx_bind_simps [simp]:
  "tx_bind (tx_return x) f = f x" "tx_bind (tx_fail e) f = tx_fail e"
  "tx_bind (tx_lift (Inr x)) f = f x" "tx_bind (tx_lift (Inl e)) f = tx_fail e"
  "tx_bind (Pair (Inr x)) f = f x" "tx_bind (Pair (Inl e)) f = tx_fail e"
  by (auto simp: tx_bind_def tx_fail_def tx_return_def tx_lift_def)

section \<open>The interface\<close>

text \<open>
  An iterator is over, or stands on an entry and \<^verbatim>\<open>Next\<close> moves it on, or stands on an entry and
  \<^verbatim>\<open>Next\<close> fails.
\<close>

datatype kv_iterator =
    IterEnd
  | IterAt bytes bytes kv_iterator
  | IterFail bytes bytes tx_error

fun iterator_of :: "(bytes \<times> bytes) list \<Rightarrow> kv_iterator" where
  "iterator_of [] = IterEnd"
| "iterator_of ((k, v) # es) = IterAt k v (iterator_of es)"

record 's kv_ops =
  kv_get :: "bytes \<Rightarrow> 's \<Rightarrow> tx_error + bytes"
  kv_set :: "bytes \<Rightarrow> bytes \<Rightarrow> ('s, unit) tx"
  kv_delete :: "bytes \<Rightarrow> ('s, unit) tx"
  kv_iter :: "bytes \<Rightarrow> bytes \<Rightarrow> 's \<Rightarrow> tx_error + kv_iterator"
  kv_iterReverse :: "bytes \<Rightarrow> 's \<Rightarrow> tx_error + kv_iterator"

text \<open>The documented contract. A nil key bound is the empty key.\<close>

locale kv_store =
  fixes ops :: "'s kv_ops" and view :: "'s \<Rightarrow> bytes \<rightharpoonup> bytes"
  assumes get: "kv_get ops k s = (case view s k of None \<Rightarrow> Inl ErrNotExist | Some v \<Rightarrow> Inr v)"
    and set_nil: "kv_set ops k [] s = (Inl ErrCannotSetNilValue, s)"
    and set_ok: "v \<noteq> [] \<Longrightarrow> \<exists>s'. kv_set ops k v s = (Inr (), s') \<and> view s' = (view s)(k \<mapsto> v)"
    and delete_ok: "\<exists>s'. kv_delete ops k s = (Inr (), s') \<and> view s' = (view s)(k := None)"
    and iter_ok: "\<exists>es. kv_iter ops lo hi s = Inr (iterator_of es) \<and>
        sorted_wrt (<) (map fst es) \<and>
        set es = {(k, v). view s k = Some v \<and> lo \<le> k \<and> (hi = [] \<or> k < hi)}"
    and iterReverse_ok: "\<exists>es. kv_iterReverse ops hi s = Inr (iterator_of es) \<and>
        sorted_wrt (>) (map fst es) \<and>
        set es = {(k, v). view s k = Some v \<and> (hi = [] \<or> k < hi)}"

section \<open>kv/utils.go\<close>

definition parse_int :: "bytes \<Rightarrow> tx_error + i64" where
  "parse_int v = map_sum NumErr id (ParseInt v)"

definition IncInt64 :: "'s kv_ops \<Rightarrow> bytes \<Rightarrow> i64 \<Rightarrow> ('s, i64) tx" where
  "IncInt64 ops k step = (\<lambda>s.
     case kv_get ops k s of
       Inl ErrNotExist \<Rightarrow>
         tx_bind (kv_set ops k (FormatInt step)) (\<lambda>_. tx_return step) s
     | Inl err \<Rightarrow> (Inl err, s)
     | Inr val \<Rightarrow>
         tx_bind (tx_lift (parse_int val)) (\<lambda>intVal.
           let intVal' = intVal + step
           in tx_bind (kv_set ops k (FormatInt intVal')) (\<lambda>_. tx_return intVal')) s)"

definition GetInt64 :: "'s kv_ops \<Rightarrow> bytes \<Rightarrow> 's \<Rightarrow> tx_error + i64" where
  "GetInt64 ops k s =
     (case kv_get ops k s of
        Inl ErrNotExist \<Rightarrow> Inr 0
      | Inl err \<Rightarrow> Inl err
      | Inr val \<Rightarrow> parse_int val)"

fun walk :: "(bytes \<Rightarrow> bytes \<Rightarrow> ('s, unit) tx) \<Rightarrow> kv_iterator \<Rightarrow> ('s, unit) tx" where
  "walk f IterEnd = tx_return ()"
| "walk f (IterAt k v it) = tx_bind (f k v) (\<lambda>_. walk f it)"
| "walk f (IterFail k v err) = tx_bind (f k v) (\<lambda>_. tx_fail err)"

text \<open>\<^verbatim>\<open>WalkMemBuffer\<close>; the store \<^verbatim>\<open>m\<close> is only read, \<^verbatim>\<open>f\<close> works on a state of its own.\<close>

definition WalkMemBuffer ::
    "'m kv_ops \<Rightarrow> 'm \<Rightarrow> (bytes \<Rightarrow> bytes \<Rightarrow> ('s, unit) tx) \<Rightarrow> ('s, unit) tx" where
  "WalkMemBuffer ops m f = tx_bind (tx_lift (kv_iter ops [] [] m)) (walk f)"

section \<open>Consequences of the contract\<close>

context kv_store
begin

lemma get_simps:
  "view s k = None \<Longrightarrow> kv_get ops k s = Inl ErrNotExist"
  "view s k = Some v \<Longrightarrow> kv_get ops k s = Inr v"
  by (simp_all add: get)

lemma setE:
  assumes "v \<noteq> []"
  obtains s' where "kv_set ops k v s = (Inr (), s')" "view s' = (view s)(k \<mapsto> v)"
  using set_ok [OF assms] by blast

lemma deleteE:
  obtains s' where "kv_delete ops k s = (Inr (), s')" "view s' = (view s)(k := None)"
  using delete_ok by blast

text \<open>A counter: what \<^verbatim>\<open>IncInt64\<close> leaves is what \<^verbatim>\<open>GetInt64\<close> reads, and increments add up modulo
  \<open>2 ^ 64\<close>.\<close>

definition counter :: "'s \<Rightarrow> bytes \<Rightarrow> i64 \<Rightarrow> bool" where
  "counter s k n \<longleftrightarrow> (case view s k of None \<Rightarrow> n = 0 | Some v \<Rightarrow> v = FormatInt n)"

lemma GetInt64_counter: "counter s k n \<Longrightarrow> GetInt64 ops k s = Inr n"
  by (cases "view s k") (auto simp: counter_def GetInt64_def get parse_int_def)

lemma IncInt64_counter:
  assumes "counter s k n"
  obtains s' where "IncInt64 ops k step s = (Inr (n + step), s')"
    "view s' = (view s)(k \<mapsto> FormatInt (n + step))"
proof (cases "view s k")
  case None
  obtain s' where "kv_set ops k (FormatInt step) s = (Inr (), s')" "view s' = (view s)(k \<mapsto> FormatInt step)"
    by (rule setE [OF FormatInt_nonempty])
  with None assms show thesis
    by (intro that [of s']) (simp_all add: IncInt64_def get counter_def tx_bind_apply)
next
  case (Some v)
  obtain s' where "kv_set ops k (FormatInt (n + step)) s = (Inr (), s')"
      "view s' = (view s)(k \<mapsto> FormatInt (n + step))"
    by (rule setE [OF FormatInt_nonempty])
  with Some assms show thesis
    by (intro that [of s'])
      (simp_all add: IncInt64_def get counter_def tx_bind_apply parse_int_def Let_def)
qed

end

section \<open>A reference store\<close>

text \<open>An association list that keeps the contract, iterated in key order.\<close>

type_synonym mem_kv = "(bytes \<times> bytes) list"

definition mem_sorted :: "mem_kv \<Rightarrow> (bytes \<times> bytes) list" where
  "mem_sorted s = map (\<lambda>k. (k, the (map_of s k))) (sorted_list_of_set (set (map fst s)))"

definition mem_ops :: "mem_kv kv_ops" where
  "mem_ops = \<lparr>
     kv_get = \<lambda>k s. case map_of s k of None \<Rightarrow> Inl ErrNotExist | Some v \<Rightarrow> Inr v,
     kv_set = \<lambda>k v s. if v = [] then (Inl ErrCannotSetNilValue, s) else (Inr (), AList.update k v s),
     kv_delete = \<lambda>k s. (Inr (), AList.delete k s),
     kv_iter = \<lambda>lo hi s. Inr (iterator_of (filter (\<lambda>(k, _). lo \<le> k \<and> (hi = [] \<or> k < hi)) (mem_sorted s))),
     kv_iterReverse = \<lambda>hi s. Inr (iterator_of (filter (\<lambda>(k, _). hi = [] \<or> k < hi) (rev (mem_sorted s))))\<rparr>"

lemma mem_sorted_props:
  "sorted_wrt (<) (map fst (mem_sorted s))" "set (mem_sorted s) = {(k, v). map_of s k = Some v}"
proof -
  show "sorted_wrt (<) (map fst (mem_sorted s))"
    using strict_sorted_list_of_set [of "set (map fst s)"] by (simp add: mem_sorted_def o_def)
  have "set (mem_sorted s) = (\<lambda>k. (k, the (map_of s k))) ` dom (map_of s)"
    by (simp add: mem_sorted_def dom_map_of_conv_image_fst)
  also have "\<dots> = {(k, v). map_of s k = Some v}"
    by (auto simp: image_iff dom_def)
  finally show "set (mem_sorted s) = {(k, v). map_of s k = Some v}" .
qed

lemma sorted_wrt_map_fst_filter:
  "sorted_wrt P (map fst es) \<Longrightarrow> sorted_wrt P (map fst (filter Q es))"
  by (induction es) (auto)

interpretation mem: kv_store mem_ops map_of
proof
  fix lo hi :: bytes and s :: mem_kv
  let ?es = "filter (\<lambda>(k, _). lo \<le> k \<and> (hi = [] \<or> k < hi)) (mem_sorted s)"
  show "\<exists>es. kv_iter mem_ops lo hi s = Inr (iterator_of es) \<and> sorted_wrt (<) (map fst es) \<and>
      set es = {(k, v). map_of s k = Some v \<and> lo \<le> k \<and> (hi = [] \<or> k < hi)}"
    using mem_sorted_props [of s]
    by (intro exI [of _ ?es]) (auto simp: mem_ops_def sorted_wrt_map_fst_filter)
next
  fix hi :: bytes and s :: mem_kv
  let ?es = "filter (\<lambda>(k, _). hi = [] \<or> k < hi) (rev (mem_sorted s))"
  have "sorted_wrt (>) (map fst (rev (mem_sorted s)))"
    using mem_sorted_props(1) [of s] by (simp add: sorted_wrt_rev flip: rev_map)
  then show "\<exists>es. kv_iterReverse mem_ops hi s = Inr (iterator_of es) \<and> sorted_wrt (>) (map fst es) \<and>
      set es = {(k, v). map_of s k = Some v \<and> (hi = [] \<or> k < hi)}"
    using mem_sorted_props(2) [of s]
    by (intro exI [of _ ?es]) (auto simp: mem_ops_def sorted_wrt_map_fst_filter)
qed (auto simp: mem_ops_def update_conv' delete_conv' map_of_delete fun_upd_def split: option.splits)

end
