(* ===== verification/Tx_Structure.thy ===== *)
theory Tx_Structure
  imports Kv_Store
begin

text \<open>
  Package \<^verbatim>\<open>structure\<close>: strings, hashes and lists laid out on the keys of a transaction. A
  \<^verbatim>\<open>TxStructure\<close> reads through \<^verbatim>\<open>reader\<close> and writes through \<^verbatim>\<open>readWriter\<close>; \<^verbatim>\<open>meta\<close> passes the same
  transaction for both, or a snapshot and nil (\<^verbatim>\<open>hasWriter\<close> is false). A nil slice is None.
\<close>

section \<open>structure/structure.go and structure/type.go\<close>

record TxStructure =
  prefix :: bytes
  hasWriter :: bool

definition NewStructure :: "bool \<Rightarrow> bytes \<Rightarrow> TxStructure" where
  "NewStructure writer p = \<lparr>prefix = p, hasWriter = writer\<rparr>"

definition StringMeta :: byte where "StringMeta = 83"
definition StringData :: byte where "StringData = 115"
definition HashMeta :: byte where "HashMeta = 72"
definition HashData :: byte where "HashData = 104"
definition ListMeta :: byte where "ListMeta = 76"
definition ListData :: byte where "ListData = 108"

lemmas type_flags = StringMeta_def StringData_def HashMeta_def HashData_def ListMeta_def ListData_def

definition encodeStringDataKey :: "TxStructure \<Rightarrow> bytes \<Rightarrow> bytes" where
  "encodeStringDataKey t key = EncodeUint (EncodeBytes ([] @ prefix t) key) (ucast StringData)"

definition encodeHashMetaKey :: "TxStructure \<Rightarrow> bytes \<Rightarrow> bytes" where
  "encodeHashMetaKey t key = EncodeUint (EncodeBytes ([] @ prefix t) key) (ucast HashMeta)"

definition encodeHashDataKey :: "TxStructure \<Rightarrow> bytes \<Rightarrow> bytes \<Rightarrow> bytes" where
  "encodeHashDataKey t key field =
     EncodeBytes (EncodeUint (EncodeBytes ([] @ prefix t) key) (ucast HashData)) field"

definition decodeHashDataKey :: "TxStructure \<Rightarrow> bytes \<Rightarrow> tx_error + bytes \<times> bytes" where
  "decodeHashDataKey t ek =
     (if \<not> bytes_HasPrefix ek (prefix t) then Inl InvalidHashKeyPrefix
      else
        case DecodeBytes supportsUnaligned (drop (length (prefix t)) ek) of
          Inl err \<Rightarrow> Inl (CodecErr err)
        | Inr (ek1, key) \<Rightarrow>
            (case DecodeUint ek1 of
               Inl err \<Rightarrow> Inl (CodecErr err)
             | Inr (ek2, tp) \<Rightarrow>
                 if (ucast tp :: byte) \<noteq> HashData then Inl (ErrInvalidHashKeyFlag (ucast tp))
                 else
                   case DecodeBytes supportsUnaligned ek2 of
                     Inl err \<Rightarrow> Inl (CodecErr err)
                   | Inr (_, field) \<Rightarrow> Inr (key, field)))"

definition hashDataKeyPrefix :: "TxStructure \<Rightarrow> bytes \<Rightarrow> bytes" where
  "hashDataKeyPrefix t key = EncodeUint (EncodeBytes ([] @ prefix t) key) (ucast HashData)"

definition encodeListMetaKey :: "TxStructure \<Rightarrow> bytes \<Rightarrow> bytes" where
  "encodeListMetaKey t key = EncodeUint (EncodeBytes ([] @ prefix t) key) (ucast ListMeta)"

definition encodeListDataKey :: "TxStructure \<Rightarrow> bytes \<Rightarrow> i64 \<Rightarrow> bytes" where
  "encodeListDataKey t key index =
     EncodeInt (EncodeUint (EncodeBytes ([] @ prefix t) key) (ucast ListData)) index"

section \<open>Reading a key that may be missing\<close>

text \<open>\<^verbatim>\<open>reader.Get\<close> with \<^verbatim>\<open>ErrNotExist\<close> turned into a nil value.\<close>

definition reader_Get :: "'s kv_ops \<Rightarrow> bytes \<Rightarrow> ('s, bytes option) tx" where
  "reader_Get ops ek = (\<lambda>s.
     case kv_get ops ek s of
       Inl ErrNotExist \<Rightarrow> (Inr None, s)
     | Inl err \<Rightarrow> (Inl err, s)
     | Inr v \<Rightarrow> (Inr (Some v), s))"

text \<open>\<^verbatim>\<open>err == kv.ErrNotExist\<close> turned into no error, for an operation whose result is then zero.\<close>

definition ignore_not_exist :: "'a \<Rightarrow> ('s, 'a) tx \<Rightarrow> ('s, 'a) tx" where
  "ignore_not_exist z m = (\<lambda>s. case m s of (Inl ErrNotExist, s') \<Rightarrow> (Inr z, s') | r \<Rightarrow> r)"

section \<open>structure/string.go\<close>

definition tx_Set :: "'s kv_ops \<Rightarrow> TxStructure \<Rightarrow> bytes \<Rightarrow> bytes \<Rightarrow> ('s, unit) tx" where
  "tx_Set ops t key val =
     (if \<not> hasWriter t then tx_fail ErrWriteOnSnapshot
      else kv_set ops (encodeStringDataKey t key) val)"

definition tx_Get :: "'s kv_ops \<Rightarrow> TxStructure \<Rightarrow> bytes \<Rightarrow> ('s, bytes option) tx" where
  "tx_Get ops t key = reader_Get ops (encodeStringDataKey t key)"

definition tx_GetInt64 :: "'s kv_ops \<Rightarrow> TxStructure \<Rightarrow> bytes \<Rightarrow> ('s, i64) tx" where
  "tx_GetInt64 ops t key =
     tx_bind (tx_Get ops t key) (\<lambda>v.
       case v of None \<Rightarrow> tx_return 0 | Some b \<Rightarrow> tx_lift (parse_int b))"

definition tx_Inc :: "'s kv_ops \<Rightarrow> TxStructure \<Rightarrow> bytes \<Rightarrow> i64 \<Rightarrow> ('s, i64) tx" where
  "tx_Inc ops t key step =
     (if \<not> hasWriter t then tx_fail ErrWriteOnSnapshot
      else ignore_not_exist 0 (IncInt64 ops (encodeStringDataKey t key) step))"

definition tx_Clear :: "'s kv_ops \<Rightarrow> TxStructure \<Rightarrow> bytes \<Rightarrow> ('s, unit) tx" where
  "tx_Clear ops t key =
     (if \<not> hasWriter t then tx_fail ErrWriteOnSnapshot
      else ignore_not_exist () (kv_delete ops (encodeStringDataKey t key)))"

section \<open>structure/hash.go\<close>

definition loadHashValue :: "'s kv_ops \<Rightarrow> bytes \<Rightarrow> ('s, bytes option) tx" where
  "loadHashValue ops dataKey = reader_Get ops dataKey"

text \<open>
  \<^verbatim>\<open>updateHash\<close>; the closure \<^verbatim>\<open>fn\<close> returns the new value and what it leaves in the variables of
  its caller. \<^verbatim>\<open>bytes.Equal\<close> takes nil and empty as equal.
\<close>

definition updateHash ::
    "'s kv_ops \<Rightarrow> TxStructure \<Rightarrow> bytes \<Rightarrow> bytes \<Rightarrow> (bytes option \<Rightarrow> tx_error + bytes \<times> 'a) \<Rightarrow> ('s, 'a) tx" where
  "updateHash ops t key field fn =
     (let dataKey = encodeHashDataKey t key field in
      tx_bind (loadHashValue ops dataKey) (\<lambda>oldValue.
      tx_bind (tx_lift (fn oldValue)) (\<lambda>(newValue, r).
        if (case oldValue of None \<Rightarrow> [] | Some v \<Rightarrow> v) = newValue then tx_return r
        else tx_bind (kv_set ops dataKey newValue) (\<lambda>_. tx_return r))))"

definition HSet :: "'s kv_ops \<Rightarrow> TxStructure \<Rightarrow> bytes \<Rightarrow> bytes \<Rightarrow> bytes \<Rightarrow> ('s, unit) tx" where
  "HSet ops t key field val =
     (if \<not> hasWriter t then tx_fail ErrWriteOnSnapshot
      else updateHash ops t key field (\<lambda>_. Inr (val, ())))"

definition HGet :: "'s kv_ops \<Rightarrow> TxStructure \<Rightarrow> bytes \<Rightarrow> bytes \<Rightarrow> ('s, bytes option) tx" where
  "HGet ops t key field = reader_Get ops (encodeHashDataKey t key field)"

definition hashFieldIntegerVal :: "i64 \<Rightarrow> bytes" where
  "hashFieldIntegerVal val = FormatInt val"

definition EncodeHashAutoIDKeyValue :: "TxStructure \<Rightarrow> bytes \<Rightarrow> bytes \<Rightarrow> i64 \<Rightarrow> bytes \<times> bytes" where
  "EncodeHashAutoIDKeyValue t key field val =
     (encodeHashDataKey t key field, hashFieldIntegerVal val)"

definition HInc :: "'s kv_ops \<Rightarrow> TxStructure \<Rightarrow> bytes \<Rightarrow> bytes \<Rightarrow> i64 \<Rightarrow> ('s, i64) tx" where
  "HInc ops t key field step =
     (if \<not> hasWriter t then tx_fail ErrWriteOnSnapshot
      else updateHash ops t key field (\<lambda>oldValue.
        res_bind (case oldValue of None \<Rightarrow> Inr 0 | Some v \<Rightarrow> parse_int v) (\<lambda>base.
          let base' = base + step in Inr (hashFieldIntegerVal base', base'))))"

definition HGetInt64 :: "'s kv_ops \<Rightarrow> TxStructure \<Rightarrow> bytes \<Rightarrow> bytes \<Rightarrow> ('s, i64) tx" where
  "HGetInt64 ops t key field =
     tx_bind (HGet ops t key field) (\<lambda>v.
       case v of None \<Rightarrow> tx_return 0 | Some b \<Rightarrow> tx_lift (parse_int b))"

fun HDel_loop :: "'s kv_ops \<Rightarrow> TxStructure \<Rightarrow> bytes \<Rightarrow> bytes list \<Rightarrow> ('s, unit) tx" where
  "HDel_loop ops t key [] = tx_return ()"
| "HDel_loop ops t key (field # rest) =
     (let dataKey = encodeHashDataKey t key field in
      tx_bind (loadHashValue ops dataKey) (\<lambda>v.
      tx_bind (if v \<noteq> None then kv_delete ops dataKey else tx_return ()) (\<lambda>_.
        HDel_loop ops t key rest)))"

definition HDel :: "'s kv_ops \<Rightarrow> TxStructure \<Rightarrow> bytes \<Rightarrow> bytes list \<Rightarrow> ('s, unit) tx" where
  "HDel ops t key flds =
     (if \<not> hasWriter t then tx_fail ErrWriteOnSnapshot else HDel_loop ops t key flds)"

text \<open>
  The loops of \<^verbatim>\<open>iterateHash\<close> and \<^verbatim>\<open>iterReverseHash\<close>; what the closure \<^verbatim>\<open>fn\<close> collects is passed along.
\<close>

fun iterateHash_loop ::
    "TxStructure \<Rightarrow> bytes \<Rightarrow> ('a \<Rightarrow> bytes \<Rightarrow> bytes \<Rightarrow> ('s, 'a) tx) \<Rightarrow> kv_iterator \<Rightarrow> 'a \<Rightarrow> ('s, 'a) tx" where
  "iterateHash_loop t dataPrefix fn IterEnd acc = tx_return acc"
| "iterateHash_loop t dataPrefix fn (IterAt k v it) acc =
     (if \<not> HasPrefix k dataPrefix then tx_return acc
      else tx_bind (tx_lift (decodeHashDataKey t k)) (\<lambda>(_, field).
           tx_bind (fn acc field v) (\<lambda>acc'. iterateHash_loop t dataPrefix fn it acc')))"
| "iterateHash_loop t dataPrefix fn (IterFail k v err) acc =
     (if \<not> HasPrefix k dataPrefix then tx_return acc
      else tx_bind (tx_lift (decodeHashDataKey t k)) (\<lambda>(_, field).
           tx_bind (fn acc field v) (\<lambda>_. tx_fail err)))"

definition iterateHash ::
    "'s kv_ops \<Rightarrow> TxStructure \<Rightarrow> bytes \<Rightarrow> ('a \<Rightarrow> bytes \<Rightarrow> bytes \<Rightarrow> ('s, 'a) tx) \<Rightarrow> 'a \<Rightarrow> ('s, 'a) tx" where
  "iterateHash ops t key fn acc =
     (let dataPrefix = hashDataKeyPrefix t key in
      tx_bind (\<lambda>s. (kv_iter ops dataPrefix (PrefixNext dataPrefix) s, s))
        (\<lambda>it. iterateHash_loop t dataPrefix fn it acc))"

fun iterReverseHash_loop ::
    "TxStructure \<Rightarrow> bytes \<Rightarrow> ('a \<Rightarrow> bytes \<Rightarrow> bytes \<Rightarrow> ('s, bool \<times> 'a) tx) \<Rightarrow> kv_iterator \<Rightarrow> 'a \<Rightarrow> ('s, 'a) tx" where
  "iterReverseHash_loop t dataPrefix fn IterEnd acc = tx_return acc"
| "iterReverseHash_loop t dataPrefix fn (IterAt k v it) acc =
     (if \<not> HasPrefix k dataPrefix then tx_return acc
      else tx_bind (tx_lift (decodeHashDataKey t k)) (\<lambda>(_, field).
           tx_bind (fn acc field v) (\<lambda>(more, acc').
             if \<not> more then tx_return acc' else iterReverseHash_loop t dataPrefix fn it acc')))"
| "iterReverseHash_loop t dataPrefix fn (IterFail k v err) acc =
     (if \<not> HasPrefix k dataPrefix then tx_return acc
      else tx_bind (tx_lift (decodeHashDataKey t k)) (\<lambda>(_, field).
           tx_bind (fn acc field v) (\<lambda>(more, acc').
             if \<not> more then tx_return acc' else tx_fail err)))"

definition iterReverseHash ::
    "'s kv_ops \<Rightarrow> TxStructure \<Rightarrow> bytes \<Rightarrow> ('a \<Rightarrow> bytes \<Rightarrow> bytes \<Rightarrow> ('s, bool \<times> 'a) tx) \<Rightarrow> 'a \<Rightarrow> ('s, 'a) tx" where
  "iterReverseHash ops t key fn acc =
     (let dataPrefix = hashDataKeyPrefix t key in
      tx_bind (\<lambda>s. (kv_iterReverse ops (PrefixNext dataPrefix) s, s))
        (\<lambda>it. iterReverseHash_loop t dataPrefix fn it acc))"

definition HKeys :: "'s kv_ops \<Rightarrow> TxStructure \<Rightarrow> bytes \<Rightarrow> ('s, bytes list) tx" where
  "HKeys ops t key = iterateHash ops t key (\<lambda>keys field _. tx_return (keys @ [field])) []"

definition HGetAll :: "'s kv_ops \<Rightarrow> TxStructure \<Rightarrow> bytes \<Rightarrow> ('s, (bytes \<times> bytes) list) tx" where
  "HGetAll ops t key = iterateHash ops t key (\<lambda>res field v. tx_return (res @ [(field, v)])) []"

definition HGetLen :: "'s kv_ops \<Rightarrow> TxStructure \<Rightarrow> bytes \<Rightarrow> ('s, nat) tx" where
  "HGetLen ops t key = iterateHash ops t key (\<lambda>n _ _. tx_return (n + 1)) 0"

definition HGetLastN :: "'s kv_ops \<Rightarrow> TxStructure \<Rightarrow> bytes \<Rightarrow> nat \<Rightarrow> ('s, (bytes \<times> bytes) list) tx" where
  "HGetLastN ops t key num =
     iterReverseHash ops t key (\<lambda>res field v.
       let res' = res @ [(field, v)] in tx_return (\<not> length res' \<ge> num, res')) []"

text \<open>\<^verbatim>\<open>HClear\<close> does not check \<^verbatim>\<open>readWriter\<close>; calling \<^verbatim>\<open>Delete\<close> on nil panics.\<close>

definition HClear :: "'s kv_ops \<Rightarrow> TxStructure \<Rightarrow> bytes \<Rightarrow> ('s, unit) tx" where
  "HClear ops t key =
     iterateHash ops t key (\<lambda>_ field _.
       if hasWriter t then kv_delete ops (encodeHashDataKey t key field) else tx_fail NilWriter) ()"

text \<open>The reverse iterator. The key of an iterator that is over is nil.\<close>

record ReverseHashIterator =
  ri_iter :: kv_iterator
  ri_prefix :: bytes
  ri_done :: bool
  ri_field :: bytes

fun iter_Key :: "kv_iterator \<Rightarrow> bytes" where
  "iter_Key IterEnd = []"
| "iter_Key (IterAt k _ _) = k"
| "iter_Key (IterFail k _ _) = k"

fun iter_Value :: "kv_iterator \<Rightarrow> bytes" where
  "iter_Value IterEnd = []"
| "iter_Value (IterAt _ v _) = v"
| "iter_Value (IterFail _ v _) = v"

fun iter_Next :: "kv_iterator \<Rightarrow> tx_error + kv_iterator" where
  "iter_Next IterEnd = Inl (KvFault ''iterator is invalid'')"
| "iter_Next (IterAt _ _ it) = Inr it"
| "iter_Next (IterFail _ _ err) = Inl err"

definition ReverseHashIterator_Next ::
    "TxStructure \<Rightarrow> ReverseHashIterator \<Rightarrow> tx_error + ReverseHashIterator" where
  "ReverseHashIterator_Next t i =
     res_bind (iter_Next (ri_iter i)) (\<lambda>it.
       let i' = i\<lparr>ri_iter := it\<rparr> in
       if \<not> HasPrefix (iter_Key it) (ri_prefix i) then Inr (i'\<lparr>ri_done := True\<rparr>)
       else res_bind (decodeHashDataKey t (iter_Key it)) (\<lambda>(_, field). Inr (i'\<lparr>ri_field := field\<rparr>)))"

definition ReverseHashIterator_Valid :: "ReverseHashIterator \<Rightarrow> bool" where
  "ReverseHashIterator_Valid i \<longleftrightarrow> ri_iter i \<noteq> IterEnd \<and> \<not> ri_done i"

definition ReverseHashIterator_Key :: "ReverseHashIterator \<Rightarrow> bytes" where
  "ReverseHashIterator_Key i = ri_field i"

definition ReverseHashIterator_Value :: "ReverseHashIterator \<Rightarrow> bytes" where
  "ReverseHashIterator_Value i = iter_Value (ri_iter i)"

definition newHashReverseIter ::
    "'s kv_ops \<Rightarrow> TxStructure \<Rightarrow> bytes \<Rightarrow> bytes \<Rightarrow> ('s, ReverseHashIterator) tx" where
  "newHashReverseIter ops t key field =
     (let dataPrefix = hashDataKeyPrefix t key;
          iterStart = (if length field = 0 then PrefixNext dataPrefix
                       else PrefixNext (encodeHashDataKey t key field))
      in tx_bind (\<lambda>s. (kv_iterReverse ops iterStart s, s)) (\<lambda>it.
           tx_return \<lparr>ri_iter = it, ri_prefix = dataPrefix, ri_done = False, ri_field = []\<rparr>))"

definition NewHashReverseIter :: "'s kv_ops \<Rightarrow> TxStructure \<Rightarrow> bytes \<Rightarrow> ('s, ReverseHashIterator) tx" where
  "NewHashReverseIter ops t key = newHashReverseIter ops t key []"

definition NewHashReverseIterBeginWithField ::
    "'s kv_ops \<Rightarrow> TxStructure \<Rightarrow> bytes \<Rightarrow> bytes \<Rightarrow> ('s, ReverseHashIterator) tx" where
  "NewHashReverseIterBeginWithField ops t key field = newHashReverseIter ops t key field"

section \<open>structure/list.go\<close>

record listMeta =
  LIndex :: i64
  RIndex :: i64

definition listMeta_Value :: "listMeta \<Rightarrow> bytes" where
  "listMeta_Value meta = BigEndian_PutUint64 (LIndex meta) @ BigEndian_PutUint64 (RIndex meta)"

definition listMeta_IsEmpty :: "listMeta \<Rightarrow> bool" where
  "listMeta_IsEmpty meta \<longleftrightarrow> sint (LIndex meta) \<ge> sint (RIndex meta)"

definition loadListMeta :: "'s kv_ops \<Rightarrow> bytes \<Rightarrow> ('s, listMeta) tx" where
  "loadListMeta ops metaKey =
     tx_bind (reader_Get ops metaKey) (\<lambda>v.
       case v of
         None \<Rightarrow> tx_return \<lparr>LIndex = 0, RIndex = 0\<rparr>
       | Some b \<Rightarrow>
           if length b \<noteq> 16 then tx_fail ErrInvalidListMetaData
           else tx_return \<lparr>LIndex = BigEndian_Uint64 (take 8 b), RIndex = BigEndian_Uint64 (drop 8 b)\<rparr>)"

definition adjustIndex :: "i64 \<Rightarrow> i64 \<Rightarrow> i64 \<Rightarrow> i64" where
  "adjustIndex index mi ma = (if sint index \<ge> 0 then index + mi else index + ma)"

fun listPush_loop ::
    "'s kv_ops \<Rightarrow> TxStructure \<Rightarrow> bytes \<Rightarrow> bool \<Rightarrow> listMeta \<Rightarrow> bytes list \<Rightarrow> ('s, listMeta) tx" where
  "listPush_loop ops t key left meta [] = tx_return meta"
| "listPush_loop ops t key left meta (v # vs) =
     (let meta' = (if left then meta\<lparr>LIndex := LIndex meta - 1\<rparr> else meta\<lparr>RIndex := RIndex meta + 1\<rparr>);
          index = (if left then LIndex meta' else RIndex meta)
      in tx_bind (kv_set ops (encodeListDataKey t key index) v) (\<lambda>_.
           listPush_loop ops t key left meta' vs))"

definition listPush :: "'s kv_ops \<Rightarrow> TxStructure \<Rightarrow> bytes \<Rightarrow> bool \<Rightarrow> bytes list \<Rightarrow> ('s, unit) tx" where
  "listPush ops t key left vals =
     (if \<not> hasWriter t then tx_fail ErrWriteOnSnapshot
      else if length vals = 0 then tx_return ()
      else
        let metaKey = encodeListMetaKey t key in
        tx_bind (loadListMeta ops metaKey) (\<lambda>meta.
        tx_bind (listPush_loop ops t key left meta vals) (\<lambda>meta'.
          kv_set ops metaKey (listMeta_Value meta'))))"

definition LPush :: "'s kv_ops \<Rightarrow> TxStructure \<Rightarrow> bytes \<Rightarrow> bytes list \<Rightarrow> ('s, unit) tx" where
  "LPush ops t key vals = listPush ops t key True vals"

definition RPush :: "'s kv_ops \<Rightarrow> TxStructure \<Rightarrow> bytes \<Rightarrow> bytes list \<Rightarrow> ('s, unit) tx" where
  "RPush ops t key vals = listPush ops t key False vals"

definition listPop :: "'s kv_ops \<Rightarrow> TxStructure \<Rightarrow> bytes \<Rightarrow> bool \<Rightarrow> ('s, bytes option) tx" where
  "listPop ops t key left =
     (if \<not> hasWriter t then tx_fail ErrWriteOnSnapshot
      else
        let metaKey = encodeListMetaKey t key in
        tx_bind (loadListMeta ops metaKey) (\<lambda>meta.
          if listMeta_IsEmpty meta then tx_return None
          else
            let meta' = (if left then meta\<lparr>LIndex := LIndex meta + 1\<rparr> else meta\<lparr>RIndex := RIndex meta - 1\<rparr>);
                index = (if left then LIndex meta else RIndex meta');
                dataKey = encodeListDataKey t key index
            in tx_bind (\<lambda>s. (kv_get ops dataKey s, s)) (\<lambda>dat.
               tx_bind (kv_delete ops dataKey) (\<lambda>_.
               tx_bind (if \<not> listMeta_IsEmpty meta' then kv_set ops metaKey (listMeta_Value meta')
                        else kv_delete ops metaKey) (\<lambda>_.
                 tx_return (Some dat))))))"

definition LPop :: "'s kv_ops \<Rightarrow> TxStructure \<Rightarrow> bytes \<Rightarrow> ('s, bytes option) tx" where
  "LPop ops t key = listPop ops t key True"

definition RPop :: "'s kv_ops \<Rightarrow> TxStructure \<Rightarrow> bytes \<Rightarrow> ('s, bytes option) tx" where
  "RPop ops t key = listPop ops t key False"

definition LLen :: "'s kv_ops \<Rightarrow> TxStructure \<Rightarrow> bytes \<Rightarrow> ('s, i64) tx" where
  "LLen ops t key =
     tx_bind (loadListMeta ops (encodeListMetaKey t key)) (\<lambda>meta. tx_return (RIndex meta - LIndex meta))"

text \<open>
  The loop of \<^verbatim>\<open>LGetAll\<close> counts down to \<^verbatim>\<open>meta.LIndex\<close>; the counter wraps around below the
  smallest int64, so it is a partial function, None when it never returns.
\<close>

partial_function (option) LGetAll_loop ::
    "'s kv_ops \<Rightarrow> TxStructure \<Rightarrow> bytes \<Rightarrow> i64 \<Rightarrow> i64 \<Rightarrow> bytes list \<Rightarrow> 's \<Rightarrow> (tx_error + bytes list) option" where
  [code]: "LGetAll_loop ops t key lindex index elements s =
     (if sint index \<ge> sint lindex then
        case kv_get ops (encodeListDataKey t key index) s of
          Inl err \<Rightarrow> Some (Inl err)
        | Inr e \<Rightarrow> LGetAll_loop ops t key lindex (index - 1) (elements @ [e]) s
      else Some (Inr elements))"

definition LGetAll :: "'s kv_ops \<Rightarrow> TxStructure \<Rightarrow> bytes \<Rightarrow> 's \<Rightarrow> (tx_error + bytes list) option" where
  "LGetAll ops t key s =
     (case fst (loadListMeta ops (encodeListMetaKey t key) s) of
        Inl err \<Rightarrow> Some (Inl err)
      | Inr meta \<Rightarrow>
          if listMeta_IsEmpty meta then Some (Inr [])
          else LGetAll_loop ops t key (LIndex meta) (RIndex meta - 1) [] s)"

definition LIndex_get :: "'s kv_ops \<Rightarrow> TxStructure \<Rightarrow> bytes \<Rightarrow> i64 \<Rightarrow> ('s, bytes option) tx" where
  "LIndex_get ops t key index =
     tx_bind (loadListMeta ops (encodeListMetaKey t key)) (\<lambda>meta.
       if listMeta_IsEmpty meta then tx_return None
       else
         let index' = adjustIndex index (LIndex meta) (RIndex meta)
         in if sint index' \<ge> sint (LIndex meta) \<and> sint index' < sint (RIndex meta)
            then tx_bind (\<lambda>s. (kv_get ops (encodeListDataKey t key index') s, s)) (\<lambda>v. tx_return (Some v))
            else tx_return None)"

definition LSet :: "'s kv_ops \<Rightarrow> TxStructure \<Rightarrow> bytes \<Rightarrow> i64 \<Rightarrow> bytes \<Rightarrow> ('s, unit) tx" where
  "LSet ops t key index val =
     (if \<not> hasWriter t then tx_fail ErrWriteOnSnapshot
      else
        tx_bind (loadListMeta ops (encodeListMetaKey t key)) (\<lambda>meta.
          if listMeta_IsEmpty meta then tx_return ()
          else
            let index' = adjustIndex index (LIndex meta) (RIndex meta)
            in if sint index' \<ge> sint (LIndex meta) \<and> sint index' < sint (RIndex meta)
               then kv_set ops (encodeListDataKey t key index') val
               else tx_fail (ErrInvalidListIndex index')))"

text \<open>The loop of \<^verbatim>\<open>LClear\<close> counts up to \<^verbatim>\<open>meta.RIndex\<close>, below which the counter does not wrap.\<close>

function LClear_loop :: "'s kv_ops \<Rightarrow> TxStructure \<Rightarrow> bytes \<Rightarrow> i64 \<Rightarrow> i64 \<Rightarrow> ('s, unit) tx" where
  "LClear_loop ops t key rindex index =
     (if sint index < sint rindex
      then tx_bind (kv_delete ops (encodeListDataKey t key index)) (\<lambda>_.
             LClear_loop ops t key rindex (index + 1))
      else tx_return ())"
  by pat_completeness auto
termination
  by (relation "measure (\<lambda>(_, _, _, rindex, index). nat (sint rindex - sint index))")
    (auto simp: sint_succ)

declare LClear_loop.simps [simp del]

definition LClear :: "'s kv_ops \<Rightarrow> TxStructure \<Rightarrow> bytes \<Rightarrow> ('s, unit) tx" where
  "LClear ops t key =
     (if \<not> hasWriter t then tx_fail ErrWriteOnSnapshot
      else
        let metaKey = encodeListMetaKey t key in
        tx_bind (loadListMeta ops metaKey) (\<lambda>meta.
          if listMeta_IsEmpty meta then tx_return ()
          else tx_bind (LClear_loop ops t key (RIndex meta) (LIndex meta)) (\<lambda>_. kv_delete ops metaKey)))"

end
