(* ===== verification/Tx_Hash.thy ===== *)
theory Tx_Hash
  imports Tx_Structure
begin

text \<open>
  What the strings and hashes of package \<^verbatim>\<open>structure\<close> promise: keys of different structures never
  collide, a hash behaves as a map from fields to values, and its iteration lists the map in field
  order. The lemmas are proved over the contract of the storage interface.
\<close>

section \<open>Keys\<close>

definition tx_key :: "TxStructure \<Rightarrow> bytes \<Rightarrow> byte \<Rightarrow> bytes \<Rightarrow> bytes" where
  "tx_key t key flag rest = prefix t @ EncodeBytes [] key @ EncodeUint [] (ucast flag) @ rest"

lemma tx_keys:
  "encodeStringDataKey t key = tx_key t key StringData []"
  "encodeHashMetaKey t key = tx_key t key HashMeta []"
  "encodeHashDataKey t key field = tx_key t key HashData (EncodeBytes [] field)"
  "hashDataKeyPrefix t key = tx_key t key HashData []"
  "encodeListMetaKey t key = tx_key t key ListMeta []"
  "encodeListDataKey t key i = tx_key t key ListData (EncodeInt [] i)"
  unfolding tx_key_def encodeStringDataKey_def encodeHashMetaKey_def encodeHashDataKey_def
    hashDataKeyPrefix_def encodeListMetaKey_def encodeListDataKey_def
  using EncodeBytes_append [of "prefix t" key] EncodeBytes_append [of "EncodeUint (EncodeBytes (prefix t) key) (ucast HashData)" field]
    fixed_append(1) [of "EncodeUint (EncodeBytes (prefix t) key) (ucast ListData)" i]
    fixed_append(3) [of "EncodeBytes (prefix t) key" "ucast StringData"]
    fixed_append(3) [of "EncodeBytes (prefix t) key" "ucast HashMeta"]
    fixed_append(3) [of "EncodeBytes (prefix t) key" "ucast HashData"]
    fixed_append(3) [of "EncodeBytes (prefix t) key" "ucast ListMeta"]
    fixed_append(3) [of "EncodeBytes (prefix t) key" "ucast ListData"]
  by simp_all

lemma ucast_byte_inject: "(ucast (a :: byte) :: u64) = ucast b \<longleftrightarrow> a = b"
proof
  assume eq: "(ucast a :: u64) = ucast b"
  have "(ucast (ucast x :: u64) :: byte) = x" for x
    by (rule bit_word_eqI) (simp add: bit_simps)
  then have "a = ucast (ucast a :: u64)" by (rule sym)
  also have "\<dots> = b" unfolding eq by fact
  finally show "a = b" .
qed simp

lemma tx_key_inject [simp]:
  "tx_key t key flag rest = tx_key t key' flag' rest' \<longleftrightarrow> key = key' \<and> flag = flag' \<and> rest = rest'"
  by (auto simp: tx_key_def codec_bytes.enc_append_inject codec_uint.enc_append_inject ucast_byte_inject)

lemmas tx_key_simps = tx_keys codec_bytes.enc_inject codec_int.enc_inject

lemma flags_distinct [simp]:
  "HashData \<noteq> StringData" "HashData \<noteq> ListMeta" "HashData \<noteq> ListData" "StringData \<noteq> ListMeta"
  "StringData \<noteq> ListData" "ListMeta \<noteq> ListData" "StringData \<noteq> HashData" "ListMeta \<noteq> HashData"
  "ListData \<noteq> HashData" "ListMeta \<noteq> StringData" "ListData \<noteq> StringData" "ListData \<noteq> ListMeta"
  by (simp_all add: type_flags)

lemma decodeHashDataKey_encode [simp]:
  "decodeHashDataKey t (encodeHashDataKey t key field) = Inr (key, field)"
proof -
  have "(ucast (ucast HashData :: u64) :: byte) = HashData"
    by (simp add: type_flags)
  then show ?thesis
    using codec_bytes.dec_enc [of supportsUnaligned field "[]"]
    by (simp add: decodeHashDataKey_def tx_keys tx_key_def bytes_HasPrefix_def
        codec_bytes.dec_enc codec_uint.dec_enc)
qed

lemma hash_key_prefix: "encodeHashDataKey t key field = hashDataKeyPrefix t key @ EncodeBytes [] field"
  by (simp add: tx_keys tx_key_def)

lemma hash_prefix_split:
  obtains p where "hashDataKeyPrefix t key = p @ [104]"
proof -
  have "EncodeUint [] (ucast HashData) = [0, 0, 0, 0, 0, 0, 0, 104]"
    by (simp add: EncodeUint_def BigEndian_PutUint64_def type_flags)
  then have "hashDataKeyPrefix t key = (prefix t @ EncodeBytes [] key @ [0, 0, 0, 0, 0, 0, 0]) @ [104]"
    by (simp add: tx_keys tx_key_def)
  then show thesis by (rule that)
qed

lemma hash_prefix_range:
  "hashDataKeyPrefix t key \<le> x \<and> x < PrefixNext (hashDataKeyPrefix t key) \<longleftrightarrow>
   HasPrefix x (hashDataKeyPrefix t key)"
proof -
  obtain p where p: "hashDataKeyPrefix t key = p @ [104]" by (rule hash_prefix_split)
  have n: "PrefixNext (p @ [104]) = p @ [104 + 1]"
    using PrefixNext_split [of 104 p 0] by simp
  show ?thesis
    unfolding p n HasPrefix_def bytes_HasPrefix_iff
    using between_prefix [of 104 p 0 x] by auto
qed

lemma PrefixNext_hash_nonempty: "PrefixNext (hashDataKeyPrefix t key) \<noteq> []"
proof -
  obtain p where p: "hashDataKeyPrefix t key = p @ [104]" by (rule hash_prefix_split)
  show ?thesis
    unfolding p using PrefixNext_split [of 104 p 0] by simp
qed

section \<open>Hashes as maps\<close>

text \<open>The fields of a hash as the storage holds them, in order.\<close>

definition hash_list :: "(bytes \<rightharpoonup> bytes) \<Rightarrow> TxStructure \<Rightarrow> bytes \<Rightarrow> (bytes \<times> bytes) list \<Rightarrow> bool" where
  "hash_list m t key fs \<longleftrightarrow> sorted_wrt (<) (map fst fs) \<and>
     set fs = {(f, v). m (encodeHashDataKey t key f) = Some v}"

text \<open>No foreign key lies under the prefix of a hash.\<close>

definition hash_wf :: "(bytes \<rightharpoonup> bytes) \<Rightarrow> TxStructure \<Rightarrow> bytes \<Rightarrow> bool" where
  "hash_wf m t key \<longleftrightarrow>
     (\<forall>k \<in> dom m. HasPrefix k (hashDataKeyPrefix t key) \<longrightarrow> k \<in> range (encodeHashDataKey t key))"

lemma hash_list_unique: "hash_list m t key fs \<Longrightarrow> hash_list m t key gs \<Longrightarrow> fs = gs"
proof -
  assume "hash_list m t key fs" "hash_list m t key gs"
  then have fs: "sorted_wrt (<) (map fst fs)" "sorted_wrt (<) (map fst gs)" "set fs = set gs"
    by (simp_all add: hash_list_def)
  then have "sorted_wrt (\<lambda>x y. fst x < fst y) fs" "sorted_wrt (\<lambda>x y. fst x < fst y) gs"
    by (simp_all add: sorted_wrt_map)
  then show "fs = gs"
    using fs(3)
  proof (induction fs arbitrary: gs)
    case (Cons x fs)
    then obtain y gs' where gs: "gs = y # gs'" by (cases gs) auto
    have "x \<in> set (y # gs')" "y \<in> set (x # fs)"
      using Cons.prems(3) gs by auto
    moreover have "\<forall>z \<in> set gs'. fst y < fst z" "\<forall>z \<in> set fs. fst x < fst z"
      using Cons.prems(1,2) gs by auto
    ultimately have "x = y" by fastforce
    moreover have "x \<notin> set fs" "y \<notin> set gs'"
      using Cons.prems gs by auto
    ultimately have "set fs = set gs'"
      using Cons.prems(3) gs by auto
    then show ?case using Cons gs \<open>x = y\<close> by simp
  qed simp
qed

lemma sorted_map_encode:
  "sorted_wrt (<) (map (fst \<circ> (\<lambda>(f, v). (encodeHashDataKey t key f, v))) fs) \<longleftrightarrow> sorted_wrt (<) (map fst fs)"
proof -
  have "encodeHashDataKey t key f < encodeHashDataKey t key g \<longleftrightarrow> f < g" for f g
    by (simp add: hash_key_prefix codec_bytes.enc_order)
  then show ?thesis
    by (simp add: sorted_wrt_map case_prod_unfold)
qed

lemma encoded_entries:
  assumes "\<forall>(k, v) \<in> set es. k \<in> range (encodeHashDataKey t key)"
  obtains fs where "es = map (\<lambda>(f, v). (encodeHashDataKey t key f, v)) fs"
proof -
  have "\<exists>fs. es = map (\<lambda>(f, v). (encodeHashDataKey t key f, v)) fs"
    using assms
  proof (induction es)
    case (Cons e es)
    then obtain f v fs where "e = (encodeHashDataKey t key f, v)"
        "es = map (\<lambda>(f, v). (encodeHashDataKey t key f, v)) fs"
      by (cases e) auto
    then have "e # es = map (\<lambda>(f, v). (encodeHashDataKey t key f, v)) ((f, v) # fs)" by simp
    then show ?case by (rule exI)
  qed simp
  then show thesis using that by blast
qed

lemma HasPrefix_hash_key [simp]: "HasPrefix (encodeHashDataKey t key f) (hashDataKeyPrefix t key)"
  by (simp add: HasPrefix_def bytes_HasPrefix_iff hash_key_prefix)

lemma iterateHash_loop_pure:
  "iterateHash_loop t (hashDataKeyPrefix t key) (\<lambda>acc f v. tx_return (g acc f v))
     (iterator_of (map (\<lambda>(f, v). (encodeHashDataKey t key f, v)) fs)) acc =
   tx_return (foldl (\<lambda>acc (f, v). g acc f v) acc fs)"
  by (induction fs arbitrary: acc) auto

lemma foldl_snoc: "foldl (\<lambda>acc (f, v). acc @ [h f v]) acc fs = acc @ map (\<lambda>(f, v). h f v) fs"
  by (induction fs arbitrary: acc) auto

lemma foldl_fst: "foldl (\<lambda>acc (f, v). acc @ [f]) acc fs = acc @ map fst fs"
  by (induction fs arbitrary: acc) auto

lemma foldl_count: "foldl (\<lambda>n (f, v). n + 1) n fs = n + length fs"
  by (induction fs arbitrary: n) auto

lemma HGetLastN_loop:
  assumes "rest = [] \<or> \<not> HasPrefix (fst (hd rest)) (hashDataKeyPrefix t key)"
  shows "iterReverseHash_loop t (hashDataKeyPrefix t key)
      (\<lambda>res f v. let res' = res @ [(f, v)] in tx_return (\<not> length res' \<ge> num, res'))
      (iterator_of (map (\<lambda>(f, v). (encodeHashDataKey t key f, v)) gs @ rest)) acc =
    tx_return (acc @ take (max 1 (num - length acc)) gs)"
proof (induction gs arbitrary: acc)
  case Nil
  then show ?case
    using assms by (cases rest) auto
next
  case (Cons g gs)
  obtain f v where g: "g = (f, v)" by (cases g)
  show ?case
  proof (cases "num \<le> length acc + 1")
    case True
    then have "max 1 (num - length acc) = 1" by simp
    then show ?thesis using True by (simp add: g Let_def)
  next
    case False
    then have "max 1 (num - length acc) = Suc (max 1 (num - length (acc @ [g])))" by simp
    then show ?thesis
      using False Cons.IH [of "acc @ [g]"] by (simp add: g Let_def)
  qed
qed

text \<open>Descending entries below the end of a prefix: first those with the prefix, then the others.\<close>

lemma sorted_prefix_split:
  fixes es :: "(bytes \<times> bytes) list"
  assumes "sorted_wrt (>) (map fst es)" "\<forall>(k, v) \<in> set es. k < PrefixNext (hashDataKeyPrefix t key)"
  obtains es1 rest where "es = es1 @ rest" "\<forall>(k, v) \<in> set es1. HasPrefix k (hashDataKeyPrefix t key)"
    "\<forall>(k, v) \<in> set rest. \<not> HasPrefix k (hashDataKeyPrefix t key)"
proof -
  let ?p = "hashDataKeyPrefix t key"
  let ?P = "\<lambda>(k, v :: bytes). HasPrefix k ?p"
  have up: "HasPrefix k ?p \<longleftrightarrow> ?p \<le> k" if "(k, v) \<in> set es" for k v
    using assms(2) that hash_prefix_range [of t key k] by auto
  have rest: "\<forall>(k, v) \<in> set (dropWhile ?P es). \<not> HasPrefix k ?p"
  proof (cases "dropWhile ?P es")
    case (Cons e es')
    obtain k v where e: "e = (k, v)" by (cases e)
    have sub: "set (dropWhile ?P es) \<subseteq> set es" by (auto dest: set_dropWhileD)
    have "\<not> ?P e" using Cons hd_dropWhile [of ?P es] by simp
    then have "\<not> ?p \<le> k" using up [of k v] sub Cons e by auto
    moreover have "sorted_wrt (>) (map fst (dropWhile ?P es))"
      using assms(1) by (metis append_take_drop_id dropWhile_eq_drop map_append sorted_wrt_append)
    then have "\<forall>(k', v') \<in> set es'. k' < k" using Cons e by auto
    ultimately have "\<forall>(k', v') \<in> set (e # es'). \<not> ?p \<le> k'"
      using e by force
    then show ?thesis using up sub Cons by force
  next
    case Nil
    then show ?thesis by (simp only: list.set) simp
  qed
  have "\<forall>(k, v) \<in> set (takeWhile ?P es). HasPrefix k ?p"
    by (auto dest: set_takeWhileD)
  with rest show thesis using that [of "takeWhile ?P es" "dropWhile ?P es"] by simp
qed

context kv_store
begin

lemma reader_Get_eq [simp]: "reader_Get ops k s = (Inr (view s k), s)"
  by (auto simp: reader_Get_def get split: option.splits)

lemma HGet_eq: "HGet ops t key f s = (Inr (view s (encodeHashDataKey t key f)), s)"
  by (simp add: HGet_def)

lemma updateHash_ok:
  assumes "fn (view s (encodeHashDataKey t key f)) = Inr (v, r)" "v \<noteq> []"
  obtains s' where "updateHash ops t key f fn s = (Inr r, s')"
    "view s' = (view s)(encodeHashDataKey t key f \<mapsto> v)"
proof (cases "view s (encodeHashDataKey t key f) = Some v")
  case True
  then have "updateHash ops t key f fn s = (Inr r, s)"
    using assms by (simp add: updateHash_def loadHashValue_def tx_bind_apply Let_def)
  moreover have "view s = (view s)(encodeHashDataKey t key f \<mapsto> v)"
    using True by (simp add: fun_upd_idem)
  ultimately show thesis by (rule that)
next
  case False
  obtain s' where s': "kv_set ops (encodeHashDataKey t key f) v s = (Inr (), s')"
      "view s' = (view s)(encodeHashDataKey t key f \<mapsto> v)"
    using assms(2) by (rule setE)
  have "(case view s (encodeHashDataKey t key f) of None \<Rightarrow> [] | Some v \<Rightarrow> v) \<noteq> v"
    using False assms(2) by (auto split: option.splits)
  then have "updateHash ops t key f fn s = (Inr r, s')"
    using assms(1) s'(1) by (simp add: updateHash_def loadHashValue_def tx_bind_apply Let_def)
  then show thesis using s'(2) by (rule that)
qed

lemma HSet_ok:
  assumes "hasWriter t" "v \<noteq> []"
  obtains s' where "HSet ops t key f v s = (Inr (), s')" "view s' = (view s)(encodeHashDataKey t key f \<mapsto> v)"
proof -
  obtain s' where "updateHash ops t key f (\<lambda>_. Inr (v, ())) s = (Inr (), s')"
      "view s' = (view s)(encodeHashDataKey t key f \<mapsto> v)"
    using updateHash_ok [of "\<lambda>_. Inr (v, ())" s t key f v "()"] assms(2) by auto
  then show thesis using assms(1) by (intro that) (simp_all add: HSet_def)
qed

lemma HInc_ok:
  assumes "hasWriter t" "counter s (encodeHashDataKey t key f) n"
  obtains s' where "HInc ops t key f step s = (Inr (n + step), s')"
    "view s' = (view s)(encodeHashDataKey t key f \<mapsto> FormatInt (n + step))"
proof -
  let ?fn = "\<lambda>oldValue. res_bind (case oldValue of None \<Rightarrow> Inr 0 | Some v \<Rightarrow> parse_int v) (\<lambda>base.
          let base' = base + step in Inr (hashFieldIntegerVal base', base'))"
  have "?fn (view s (encodeHashDataKey t key f)) = Inr (FormatInt (n + step), n + step)"
    using assms(2) by (auto simp: counter_def parse_int_def hashFieldIntegerVal_def Let_def split: option.splits)
  then obtain s' where "updateHash ops t key f ?fn s = (Inr (n + step), s')"
      "view s' = (view s)(encodeHashDataKey t key f \<mapsto> FormatInt (n + step))"
    using updateHash_ok [of ?fn s t key f "FormatInt (n + step)" "n + step"] by auto
  then show thesis using assms(1) by (intro that) (simp_all add: HInc_def)
qed

lemma HDel_loop_ok:
  obtains s' where "HDel_loop ops t key fl s = (Inr (), s')"
    "view s' = (view s) |` (- encodeHashDataKey t key ` set fl)"
proof -
  have "\<exists>s'. HDel_loop ops t key fl s = (Inr (), s') \<and> view s' = (view s) |` (- encodeHashDataKey t key ` set fl)"
  proof (induction fl arbitrary: s)
    case (Cons f fl)
    let ?k = "encodeHashDataKey t key f"
    obtain d where d: "kv_delete ops ?k s = (Inr (), d)" "view d = (view s)(?k := None)"
      by (rule deleteE)
    then obtain s1 where s1: "(if view s ?k \<noteq> None then kv_delete ops ?k else tx_return ()) s = (Inr (), s1)"
        "view s1 = (view s)(?k := None)"
      by (cases "view s ?k = None") (auto simp: fun_upd_idem)
    obtain s' where s': "HDel_loop ops t key fl s1 = (Inr (), s')"
        "view s' = (view s1) |` (- encodeHashDataKey t key ` set fl)"
      using Cons.IH by blast
    have "HDel_loop ops t key (f # fl) s = (Inr (), s')"
      using s1(1) s'(1) by (simp add: loadHashValue_def tx_bind_apply Let_def)
    moreover have "view s' = (view s) |` (- encodeHashDataKey t key ` set (f # fl))"
      using s'(2) s1(2) by (auto simp: restrict_map_def)
    ultimately show ?case by blast
  qed (simp add: restrict_map_def)
  then show thesis using that by blast
qed

text \<open>What the iterator of a hash yields.\<close>

lemma hash_iter:
  assumes "hash_wf (view s) t key"
  obtains fs where
    "kv_iter ops (hashDataKeyPrefix t key) (PrefixNext (hashDataKeyPrefix t key)) s =
       Inr (iterator_of (map (\<lambda>(f, v). (encodeHashDataKey t key f, v)) fs))"
    "hash_list (view s) t key fs"
proof -
  let ?p = "hashDataKeyPrefix t key"
  obtain es where es: "kv_iter ops ?p (PrefixNext ?p) s = Inr (iterator_of es)"
      "sorted_wrt (<) (map fst es)"
      "set es = {(k, v). view s k = Some v \<and> ?p \<le> k \<and> (PrefixNext ?p = [] \<or> k < PrefixNext ?p)}"
    using iter_ok by blast
  have set: "set es = {(k, v). view s k = Some v \<and> HasPrefix k ?p}"
    using es(3) hash_prefix_range [of t key] PrefixNext_hash_nonempty [of t key] by auto
  then have "\<forall>(k, v) \<in> set es. k \<in> range (encodeHashDataKey t key)"
    using assms by (auto simp: hash_wf_def)
  then obtain fs where fs: "es = map (\<lambda>(f, v). (encodeHashDataKey t key f, v)) fs"
    by (rule encoded_entries)
  have "set fs = {(f, v). view s (encodeHashDataKey t key f) = Some v}"
  proof (intro set_eqI iffI; clarify)
    fix f v assume "(f, v) \<in> set fs"
    then have "(encodeHashDataKey t key f, v) \<in> set es" using fs by force
    then show "view s (encodeHashDataKey t key f) = Some v" using set by auto
  next
    fix f v assume "view s (encodeHashDataKey t key f) = Some v"
    then have "(encodeHashDataKey t key f, v) \<in> set es" using set by auto
    then show "(f, v) \<in> set fs" unfolding fs by (auto simp: tx_key_simps)
  qed
  then have "hash_list (view s) t key fs"
    using es(2) fs by (simp add: hash_list_def sorted_map_encode)
  then show thesis using es(1) fs by (intro that) auto
qed

lemma hash_reads:
  assumes "hash_wf (view s) t key"
  obtains fs where "hash_list (view s) t key fs"
    "HGetAll ops t key s = (Inr fs, s)" "HKeys ops t key s = (Inr (map fst fs), s)"
    "HGetLen ops t key s = (Inr (length fs), s)"
proof -
  obtain fs where fs: "kv_iter ops (hashDataKeyPrefix t key) (PrefixNext (hashDataKeyPrefix t key)) s =
       Inr (iterator_of (map (\<lambda>(f, v). (encodeHashDataKey t key f, v)) fs))"
    "hash_list (view s) t key fs"
    using assms by (rule hash_iter)
  show thesis
  proof (rule that [OF fs(2)])
    show "HGetAll ops t key s = (Inr fs, s)"
      using fs(1) by (simp add: HGetAll_def iterateHash_def iterateHash_loop_pure tx_bind_def Let_def foldl_snoc)
    show "HKeys ops t key s = (Inr (map fst fs), s)"
      using fs(1) by (simp add: HKeys_def iterateHash_def iterateHash_loop_pure tx_bind_def Let_def foldl_fst)
    show "HGetLen ops t key s = (Inr (length fs), s)"
      using fs(1) foldl_count [of 0 fs]
      by (simp add: HGetLen_def iterateHash_def iterateHash_loop_pure tx_bind_def Let_def)
  qed
qed

lemma HClear_loop:
  assumes "hasWriter t"
  shows "\<exists>s'. iterateHash_loop t (hashDataKeyPrefix t key)
      (\<lambda>_ f _. if hasWriter t then kv_delete ops (encodeHashDataKey t key f) else tx_fail NilWriter)
      (iterator_of (map (\<lambda>(f, v). (encodeHashDataKey t key f, v)) fs)) () s = (Inr (), s') \<and>
    view s' = (view s) |` (- encodeHashDataKey t key ` fst ` set fs)"
proof (induction fs arbitrary: s)
  case (Cons e fs)
  obtain f v where e: "e = (f, v)" by (cases e)
  obtain d where d: "kv_delete ops (encodeHashDataKey t key f) s = (Inr (), d)"
      "view d = (view s)(encodeHashDataKey t key f := None)"
    by (rule deleteE)
  obtain s' where s': "iterateHash_loop t (hashDataKeyPrefix t key)
      (\<lambda>_ f _. if hasWriter t then kv_delete ops (encodeHashDataKey t key f) else tx_fail NilWriter)
      (iterator_of (map (\<lambda>(f, v). (encodeHashDataKey t key f, v)) fs)) () d = (Inr (), s')"
      "view s' = (view d) |` (- encodeHashDataKey t key ` fst ` set fs)"
    using Cons.IH by blast
  have "view s' = (view s) |` (- encodeHashDataKey t key ` fst ` set (e # fs))"
    using s'(2) d(2) by (auto simp: restrict_map_def e)
  then show ?case
    using s'(1) d(1) assms by (intro exI [of _ s']) (simp add: e tx_bind_def)
qed (simp add: restrict_map_def)

lemma HClear_ok:
  assumes "hasWriter t" "hash_wf (view s) t key"
  obtains s' where "HClear ops t key s = (Inr (), s')"
    "view s' = (view s) |` (- range (encodeHashDataKey t key))"
proof -
  obtain fs where fs: "kv_iter ops (hashDataKeyPrefix t key) (PrefixNext (hashDataKeyPrefix t key)) s =
       Inr (iterator_of (map (\<lambda>(f, v). (encodeHashDataKey t key f, v)) fs))"
    "hash_list (view s) t key fs"
    using assms(2) by (rule hash_iter)
  obtain s' where s': "iterateHash_loop t (hashDataKeyPrefix t key)
      (\<lambda>_ f _. if hasWriter t then kv_delete ops (encodeHashDataKey t key f) else tx_fail NilWriter)
      (iterator_of (map (\<lambda>(f, v). (encodeHashDataKey t key f, v)) fs)) () s = (Inr (), s')"
    "view s' = (view s) |` (- encodeHashDataKey t key ` fst ` set fs)"
    using HClear_loop [OF assms(1)] by blast
  have "view s k = None" if "k \<in> range (encodeHashDataKey t key)" "k \<notin> encodeHashDataKey t key ` fst ` set fs" for k
    using that fs(2) by (force simp: hash_list_def image_iff)
  then have "view s' = (view s) |` (- range (encodeHashDataKey t key))"
    unfolding s'(2) by (fastforce simp: restrict_map_def)
  moreover have "HClear ops t key s = (Inr (), s')"
    using fs(1) s'(1) by (simp add: HClear_def iterateHash_def tx_bind_def Let_def)
  ultimately show thesis using that by blast
qed

lemma HClear_snapshot:
  assumes "\<not> hasWriter t" "hash_wf (view s) t key" "view s (encodeHashDataKey t key f) = Some v"
  shows "HClear ops t key s = (Inl NilWriter, s)"
proof -
  obtain fs where fs: "kv_iter ops (hashDataKeyPrefix t key) (PrefixNext (hashDataKeyPrefix t key)) s =
       Inr (iterator_of (map (\<lambda>(f, v). (encodeHashDataKey t key f, v)) fs))"
    "hash_list (view s) t key fs"
    using assms(2) by (rule hash_iter)
  then have "(f, v) \<in> set fs" using assms(3) by (simp add: hash_list_def)
  then obtain g w gs where "fs = (g, w) # gs" by (cases fs) auto
  then show ?thesis
    using fs(1) assms(1) by (simp add: HClear_def iterateHash_def tx_bind_def Let_def)
qed

lemma hash_iterReverse:
  assumes "hash_wf (view s) t key"
  obtains fs rest where
    "kv_iterReverse ops (PrefixNext (hashDataKeyPrefix t key)) s =
       Inr (iterator_of (map (\<lambda>(f, v). (encodeHashDataKey t key f, v)) (rev fs) @ rest))"
    "hash_list (view s) t key fs"
    "\<forall>(k, v) \<in> set rest. view s k = Some v \<and> \<not> HasPrefix k (hashDataKeyPrefix t key)"
    "\<And>k v. view s k = Some v \<Longrightarrow> k < hashDataKeyPrefix t key \<Longrightarrow> (k, v) \<in> set rest"
proof -
  let ?p = "hashDataKeyPrefix t key"
  obtain es where es: "kv_iterReverse ops (PrefixNext ?p) s = Inr (iterator_of es)"
      "sorted_wrt (>) (map fst es)"
      "set es = {(k, v). view s k = Some v \<and> (PrefixNext ?p = [] \<or> k < PrefixNext ?p)}"
    using iterReverse_ok by blast
  have set: "set es = {(k, v). view s k = Some v \<and> k < PrefixNext ?p}"
    using es(3) PrefixNext_hash_nonempty [of t key] by auto
  then have "\<forall>(k, v) \<in> set es. k < PrefixNext ?p" by auto
  with es(2) obtain es1 rest where split: "es = es1 @ rest" "\<forall>(k, v) \<in> set es1. HasPrefix k ?p"
      "\<forall>(k, v) \<in> set rest. \<not> HasPrefix k ?p"
    by (rule sorted_prefix_split)
  have es1: "set es1 = {(k, v). view s k = Some v \<and> HasPrefix k ?p}"
  proof (intro set_eqI iffI; clarify)
    fix k v assume "(k, v) \<in> set es1"
    then show "view s k = Some v \<and> HasPrefix k ?p" using set split(1,2) by auto
  next
    fix k v assume "view s k = Some v" "HasPrefix k ?p"
    then have "(k, v) \<in> set es" using set hash_prefix_range [of t key k] by auto
    then show "(k, v) \<in> set es1" using split(1,3) \<open>HasPrefix k ?p\<close> by auto
  qed
  then have "\<forall>(k, v) \<in> set es1. k \<in> range (encodeHashDataKey t key)"
    using assms by (auto simp: hash_wf_def)
  then obtain gs where gs: "es1 = map (\<lambda>(f, v). (encodeHashDataKey t key f, v)) gs"
    by (rule encoded_entries)
  have "sorted_wrt (>) (map fst es1)"
    using es(2) split(1) by (simp add: sorted_wrt_append)
  then have "sorted_wrt (<) (map fst (rev es1))"
    by (simp add: sorted_wrt_rev flip: rev_map)
  then have "sorted_wrt (<) (map fst (rev gs))"
    using sorted_map_encode [of t key "rev gs"] by (simp add: gs rev_map)
  moreover have "set gs = {(f, v). view s (encodeHashDataKey t key f) = Some v}"
  proof (intro set_eqI iffI; clarify)
    fix f v assume "(f, v) \<in> set gs"
    then have "(encodeHashDataKey t key f, v) \<in> set es1" using gs by force
    then show "view s (encodeHashDataKey t key f) = Some v" using es1 by auto
  next
    fix f v assume "view s (encodeHashDataKey t key f) = Some v"
    then have "(encodeHashDataKey t key f, v) \<in> set es1" using es1 by auto
    then show "(f, v) \<in> set gs" unfolding gs by (auto simp: tx_key_simps)
  qed
  ultimately have hl: "hash_list (view s) t key (rev gs)"
    by (simp add: hash_list_def)
  have low: "(k, v) \<in> set rest" if "view s k = Some v" "k < ?p" for k v
  proof -
    have "k < PrefixNext ?p \<and> \<not> HasPrefix k ?p"
      using that(2) hash_prefix_range [of t key k] hash_prefix_range [of t key ?p]
      by (auto simp: HasPrefix_def bytes_HasPrefix_def)
    then show ?thesis using that(1) set split(1,2) by auto
  qed
  have oth: "\<forall>(k, v) \<in> set rest. view s k = Some v \<and> \<not> HasPrefix k ?p"
  proof -
    have "set rest \<subseteq> set es" using split(1) by simp
    then show ?thesis using set split(3) by auto
  qed
  have "kv_iterReverse ops (PrefixNext ?p) s =
      Inr (iterator_of (map (\<lambda>(f, v). (encodeHashDataKey t key f, v)) (rev (rev gs)) @ rest))"
    unfolding rev_rev_ident es(1) split(1) gs ..
  from this hl oth low show thesis by (rule that)
qed

lemma HGetLastN_ok:
  assumes "hash_wf (view s) t key"
  obtains fs where "hash_list (view s) t key fs"
    "\<And>num. HGetLastN ops t key num s = (Inr (take (max 1 num) (rev fs)), s)"
proof -
  obtain fs rest where fs: "kv_iterReverse ops (PrefixNext (hashDataKeyPrefix t key)) s =
       Inr (iterator_of (map (\<lambda>(f, v). (encodeHashDataKey t key f, v)) (rev fs) @ rest))"
    "hash_list (view s) t key fs"
    "\<forall>(k, v) \<in> set rest. view s k = Some v \<and> \<not> HasPrefix k (hashDataKeyPrefix t key)"
    "\<And>k v. view s k = Some v \<Longrightarrow> k < hashDataKeyPrefix t key \<Longrightarrow> (k, v) \<in> set rest"
    using assms by (rule hash_iterReverse) blast
  have "rest = [] \<or> \<not> HasPrefix (fst (hd rest)) (hashDataKeyPrefix t key)"
    using fs(3) by (cases rest) auto
  then have "HGetLastN ops t key num s = (Inr (take (max 1 num) (rev fs)), s)" for num
    using fs(1) fun_cong [OF HGetLastN_loop [of rest t key num "rev fs" "[]"], of s]
    by (simp add: HGetLastN_def iterReverseHash_def tx_bind_def Let_def)
  with fs(2) show thesis by (rule that)
qed

lemma NewHashReverseIter_empty:
  assumes "hash_wf (view s) t key" "\<And>f. view s (encodeHashDataKey t key f) = None"
    and "view s k = Some v" "k < hashDataKeyPrefix t key"
  obtains i where "NewHashReverseIter ops t key s = (Inr i, s)" "ReverseHashIterator_Valid i"
    "\<not> HasPrefix (iter_Key (ri_iter i)) (ri_prefix i)"
proof -
  obtain fs rest where fs: "kv_iterReverse ops (PrefixNext (hashDataKeyPrefix t key)) s =
       Inr (iterator_of (map (\<lambda>(f, v). (encodeHashDataKey t key f, v)) (rev fs) @ rest))"
    "hash_list (view s) t key fs"
    "\<forall>(k, v) \<in> set rest. view s k = Some v \<and> \<not> HasPrefix k (hashDataKeyPrefix t key)"
    "\<And>k v. view s k = Some v \<Longrightarrow> k < hashDataKeyPrefix t key \<Longrightarrow> (k, v) \<in> set rest"
    using assms(1) by (rule hash_iterReverse) blast
  have "fs = []" using fs(2) assms(2) by (simp add: hash_list_def)
  moreover obtain k' v' r where "rest = (k', v') # r" using fs(4) [OF assms(3,4)] by (cases rest) auto
  ultimately show thesis
    using fs(1,3)
    by (intro that [of "\<lparr>ri_iter = IterAt k' v' (iterator_of r), ri_prefix = hashDataKeyPrefix t key,
          ri_done = False, ri_field = []\<rparr>"])
      (simp_all add: NewHashReverseIter_def newHashReverseIter_def tx_bind_def Let_def
        ReverseHashIterator_Valid_def)
qed

end

section \<open>Properties\<close>

text \<open>
  C19: a hash is a map from fields to values, and a write to it touches nothing else.
  On a store that keeps the contract, \<^verbatim>\<open>HSet\<close> of a non-empty value succeeds; afterwards \<^verbatim>\<open>HGet\<close> gives
  the new value for that field and for every other field of every hash what it gave before, and
  every string and list length is unchanged.
\<close>

theorem hash_refines_map:
  assumes "kv_store ops view" "hasWriter t" "v \<noteq> []"
  shows "\<exists>s'. HSet ops t key f v s = (Inr (), s') \<and>
    (\<forall>key' f'. fst (HGet ops t key' f' s') =
       (if key' = key \<and> f' = f then Inr (Some v) else fst (HGet ops t key' f' s))) \<and>
    (\<forall>key'. fst (tx_Get ops t key' s') = fst (tx_Get ops t key' s)) \<and>
    (\<forall>key'. fst (LLen ops t key' s') = fst (LLen ops t key' s))"
proof -
  note laws = kv_store.HGet_eq [OF assms(1)] kv_store.reader_Get_eq [OF assms(1)]
  obtain s' where s': "HSet ops t key f v s = (Inr (), s')"
      "view s' = (view s)(encodeHashDataKey t key f \<mapsto> v)"
    using assms by (rule kv_store.HSet_ok)
  have "fst (LLen ops t key' s') = fst (LLen ops t key' s)" for key'
    by (cases "view s (encodeListMetaKey t key')")
      (simp_all add: LLen_def loadListMeta_def tx_bind_def laws s'(2) tx_key_simps)
  then show ?thesis
    using s' by (intro exI [of _ s']) (auto simp: laws tx_Get_def tx_key_simps)
qed

theorem hash_refines_map_witness:
  "\<exists>s'. HSet mem_ops (NewStructure True [109]) [1] [2] [3] [] = (Inr (), s') \<and>
    (\<forall>key' f'. fst (HGet mem_ops (NewStructure True [109]) key' f' s') =
       (if key' = [1] \<and> f' = [2] then Inr (Some [3])
        else fst (HGet mem_ops (NewStructure True [109]) key' f' []))) \<and>
    (\<forall>key'. fst (tx_Get mem_ops (NewStructure True [109]) key' s') =
       fst (tx_Get mem_ops (NewStructure True [109]) key' [])) \<and>
    (\<forall>key'. fst (LLen mem_ops (NewStructure True [109]) key' s') =
       fst (LLen mem_ops (NewStructure True [109]) key' []))"
  by (rule hash_refines_map [OF mem.kv_store_axioms]) (simp_all add: NewStructure_def)

text \<open>
  C20: reading a whole hash. When no foreign key lies under the prefix of the hash,
  there is one list of its fields and values, strictly ascending by field and complete, which
  \<^verbatim>\<open>HGetAll\<close> returns; \<^verbatim>\<open>HKeys\<close> are its fields, \<^verbatim>\<open>HGetLen\<close> its length, and \<^verbatim>\<open>HGetLastN\<close> its end in
  descending order (one pair even for \<^verbatim>\<open>num = 0\<close>). None of them changes the store.
\<close>

theorem hash_iteration:
  assumes "kv_store ops view" "hash_wf (view s) t key"
  shows "\<exists>fs. sorted_wrt (<) (map fst fs) \<and>
    (\<forall>f v. (f, v) \<in> set fs \<longleftrightarrow> HGet ops t key f s = (Inr (Some v), s)) \<and>
    HGetAll ops t key s = (Inr fs, s) \<and> HKeys ops t key s = (Inr (map fst fs), s) \<and>
    HGetLen ops t key s = (Inr (length fs), s) \<and>
    (\<forall>num. HGetLastN ops t key num s = (Inr (take (max 1 num) (rev fs)), s))"
proof -
  obtain fs where fs: "hash_list (view s) t key fs" "HGetAll ops t key s = (Inr fs, s)"
      "HKeys ops t key s = (Inr (map fst fs), s)" "HGetLen ops t key s = (Inr (length fs), s)"
    using assms by (rule kv_store.hash_reads)
  obtain gs where gs: "hash_list (view s) t key gs"
      "\<And>num. HGetLastN ops t key num s = (Inr (take (max 1 num) (rev gs)), s)"
    using assms by (rule kv_store.HGetLastN_ok) blast
  have "gs = fs"
    using fs(1) gs(1) by (rule hash_list_unique [THEN sym])
  then show ?thesis
    using fs gs(2) by (intro exI [of _ fs])
      (auto simp: hash_list_def kv_store.HGet_eq [OF assms(1)])
qed

theorem hash_iteration_witness:
  "\<exists>fs. sorted_wrt (<) (map fst fs) \<and>
    (\<forall>f v. (f, v) \<in> set fs \<longleftrightarrow> HGet mem_ops (NewStructure True [109]) [1] f [] = (Inr (Some v), [])) \<and>
    HGetAll mem_ops (NewStructure True [109]) [1] [] = (Inr fs, []) \<and>
    HKeys mem_ops (NewStructure True [109]) [1] [] = (Inr (map fst fs), []) \<and>
    HGetLen mem_ops (NewStructure True [109]) [1] [] = (Inr (length fs), []) \<and>
    (\<forall>num. HGetLastN mem_ops (NewStructure True [109]) [1] num [] = (Inr (take (max 1 num) (rev fs)), []))"
  by (rule hash_iteration [OF mem.kv_store_axioms]) (simp add: hash_wf_def)

text \<open>
  C21: \<^verbatim>\<open>HInc\<close> is addition on an int64 counter (a missing field counts as 0): it returns the
  sum modulo \<open>2 ^ 64\<close>, which \<^verbatim>\<open>HGetInt64\<close> then reads back.
\<close>

theorem HInc_adds:
  assumes "kv_store ops view" "hasWriter t" "HGetInt64 ops t key f s = (Inr n, s)"
    and "case view s (encodeHashDataKey t key f) of None \<Rightarrow> True | Some v \<Rightarrow> v = FormatInt n"
  shows "\<exists>s'. HInc ops t key f step s = (Inr (n + step), s') \<and>
    HGetInt64 ops t key f s' = (Inr (n + step), s')"
proof -
  have HGetInt64: "HGetInt64 ops t key f s =
      (case view s (encodeHashDataKey t key f) of None \<Rightarrow> Inr 0 | Some b \<Rightarrow> parse_int b, s)" for s
    by (auto simp: HGetInt64_def tx_bind_def kv_store.HGet_eq [OF assms(1)] split: option.splits)
  have "kv_store.counter view s (encodeHashDataKey t key f) n"
    using assms(3,4) unfolding kv_store.counter_def [OF assms(1)] HGetInt64
    by (auto split: option.splits)
  with assms(1,2) obtain s' where "HInc ops t key f step s = (Inr (n + step), s')"
      "view s' = (view s)(encodeHashDataKey t key f \<mapsto> FormatInt (n + step))"
    by (rule kv_store.HInc_ok)
  then show ?thesis
    by (intro exI [of _ s']) (simp add: HGetInt64 parse_int_def)
qed

theorem HInc_adds_witness:
  "\<exists>s'. HInc mem_ops (NewStructure True [109]) [1] [2] 5 [] = (Inr (0 + 5), s') \<and>
    HGetInt64 mem_ops (NewStructure True [109]) [1] [2] s' = (Inr (0 + 5), s')"
  by (rule HInc_adds [OF mem.kv_store_axioms])
    (simp_all add: NewStructure_def HGetInt64_def tx_bind_def mem.HGet_eq)

text \<open>
  C22: with a writer, \<^verbatim>\<open>HClear\<close> removes every field of the hash and nothing else. On a
  snapshot, where every other operation that writes returns \<^verbatim>\<open>ErrWriteOnSnapshot\<close>, it calls \<^verbatim>\<open>Delete\<close>
  on the nil writer as soon as the hash has a field, and panics.
\<close>

theorem HClear_correct:
  assumes "kv_store ops view" "hash_wf (view s) t key"
  shows "if hasWriter t
    then \<exists>s'. HClear ops t key s = (Inr (), s') \<and> view s' = (view s) |` (- range (encodeHashDataKey t key))
    else (\<exists>f. view s (encodeHashDataKey t key f) \<noteq> None) \<longrightarrow> HClear ops t key s = (Inl NilWriter, s)"
proof (cases "hasWriter t")
  case True
  with assms show ?thesis by (metis kv_store.HClear_ok)
next
  case False
  with assms show ?thesis by (auto intro: kv_store.HClear_snapshot)
qed

theorem HClear_correct_witness:
  "HClear mem_ops (NewStructure False [109]) [1]
     [(encodeHashDataKey (NewStructure False [109]) [1] [2], [3])] =
   (Inl NilWriter, [(encodeHashDataKey (NewStructure False [109]) [1] [2], [3])])"
  using HClear_correct [OF mem.kv_store_axioms,
      of "[(encodeHashDataKey (NewStructure False [109]) [1] [2], [3])]" "NewStructure False [109]" "[1]"]
  by (auto simp: hash_wf_def NewStructure_def)

text \<open>
  C23: the reverse iterator over a hash is not checked before its first
  step: over a hash without fields, with any smaller key in the store, it is valid and stands on a key
  outside of the hash.
\<close>

theorem NewHashReverseIter_unchecked:
  assumes "kv_store ops view" "hash_wf (view s) t key" "\<And>f. view s (encodeHashDataKey t key f) = None"
    and "view s k = Some v" "k < hashDataKeyPrefix t key"
  shows "\<exists>i. NewHashReverseIter ops t key s = (Inr i, s) \<and> ReverseHashIterator_Valid i \<and>
    \<not> HasPrefix (iter_Key (ri_iter i)) (ri_prefix i)"
  using kv_store.NewHashReverseIter_empty [OF assms] by blast

theorem NewHashReverseIter_unchecked_witness:
  "\<exists>i. NewHashReverseIter mem_ops (NewStructure True [109]) [1] [([1], [9])] = (Inr i, [([1], [9])]) \<and>
    ReverseHashIterator_Valid i \<and> \<not> HasPrefix (iter_Key (ri_iter i)) (ri_prefix i)"
  by (rule NewHashReverseIter_unchecked [OF mem.kv_store_axioms, where k = "[1]" and v = "[9]"])
    (auto simp: hash_wf_def NewStructure_def tx_keys tx_key_def HasPrefix_def bytes_HasPrefix_def)

end
