(* ===== verification/Tx_List.thy ===== *)
theory Tx_List
  imports Tx_Hash
begin

text \<open>
  What the lists of package \<^verbatim>\<open>structure\<close> promise: a list stored at a key refines a double-ended queue
  of byte strings. The elements lie at consecutive int64 indices; the refinement relation records
  the index of the first one, and the operations keep the relation as long as the indices stay in
  range.
\<close>

section \<open>The refinement relation\<close>

definition ix :: "int \<Rightarrow> i64" where
  "ix = word_of_int"

lemma ix_arith: "ix a + 1 = ix (a + 1)" "ix a - 1 = ix (a - 1)" "ix 0 = 0" "ix b - ix a = ix (b - a)"
  by (simp_all add: ix_def)

lemma sint_ix: "- (2 ^ 63) \<le> a \<Longrightarrow> a < 2 ^ 63 \<Longrightarrow> sint (ix a) = a"
  unfolding ix_def by (rule sint_of_int_range)

lemma ix_inject:
  "- (2 ^ 63) \<le> a \<Longrightarrow> a < 2 ^ 63 \<Longrightarrow> - (2 ^ 63) \<le> b \<Longrightarrow> b < 2 ^ 63 \<Longrightarrow> ix a = ix b \<longleftrightarrow> a = b"
  by (metis sint_ix)

definition list_meta :: "int \<Rightarrow> int \<Rightarrow> listMeta" where
  "list_meta l r = \<lparr>LIndex = ix l, RIndex = ix r\<rparr>"

lemma list_meta_simps [simp]:
  "LIndex (list_meta l r) = ix l" "RIndex (list_meta l r) = ix r"
  "(list_meta l r)\<lparr>LIndex := ix l'\<rparr> = list_meta l' r" "(list_meta l r)\<lparr>RIndex := ix r'\<rparr> = list_meta l r'"
  by (simp_all add: list_meta_def)

definition data_at :: "(bytes \<rightharpoonup> bytes) \<Rightarrow> TxStructure \<Rightarrow> bytes \<Rightarrow> int \<Rightarrow> bytes list \<Rightarrow> bool" where
  "data_at m t key l xs \<longleftrightarrow>
     (\<forall>i < length xs. m (encodeListDataKey t key (ix (l + int i))) = Some (xs ! i))"

definition list_at :: "(bytes \<rightharpoonup> bytes) \<Rightarrow> TxStructure \<Rightarrow> bytes \<Rightarrow> int \<Rightarrow> bytes list \<Rightarrow> bool" where
  "list_at m t key l xs \<longleftrightarrow>
     - (2 ^ 63) \<le> l \<and> l + int (length xs) < 2 ^ 63 \<and> data_at m t key l xs \<and>
     (if xs = [] then l = 0 \<and> m (encodeListMetaKey t key) = None
      else m (encodeListMetaKey t key) = Some (listMeta_Value (list_meta l (l + int (length xs)))))"

text \<open>The keys outside of one list.\<close>

definition off_list :: "TxStructure \<Rightarrow> bytes \<Rightarrow> bytes set" where
  "off_list t key = - insert (encodeListMetaKey t key) (range (encodeListDataKey t key))"

lemma data_key_inject: "encodeListDataKey t key i = encodeListDataKey t key j \<longleftrightarrow> i = j"
  by (simp add: tx_key_simps)

lemma data_key_neq_meta: "encodeListDataKey t key i \<noteq> encodeListMetaKey t key'"
  by (simp add: tx_key_simps)

lemma data_at_meta_upd [simp]:
  "data_at (m(encodeListMetaKey t key' := v)) t key l xs \<longleftrightarrow> data_at m t key l xs"
  by (simp add: data_at_def data_key_neq_meta)

lemma data_at_snoc:
  assumes "data_at m t key l xs" "- (2 ^ 63) \<le> l" "l + int (length xs) < 2 ^ 63"
  shows "data_at (m(encodeListDataKey t key (ix (l + int (length xs))) \<mapsto> x)) t key l (xs @ [x])"
  using assms by (auto simp: data_at_def nth_append data_key_inject ix_inject less_Suc_eq)

lemma data_at_Cons:
  assumes "data_at m t key l xs" "- (2 ^ 63) \<le> l - 1" "l + int (length xs) < 2 ^ 63"
  shows "data_at (m(encodeListDataKey t key (ix (l - 1)) \<mapsto> x)) t key (l - 1) (x # xs)"
  unfolding data_at_def
proof (intro allI impI)
  fix i assume i: "i < length (x # xs)"
  show "(m(encodeListDataKey t key (ix (l - 1)) \<mapsto> x)) (encodeListDataKey t key (ix (l - 1 + int i))) =
      Some ((x # xs) ! i)"
  proof (cases i)
    case (Suc j)
    then have "ix (l - 1 + int i) \<noteq> ix (l - 1)"
      using assms(2,3) i by (subst ix_inject) auto
    moreover have "l - 1 + int i = l + int j" using Suc by simp
    ultimately show ?thesis
      using assms(1) i Suc by (simp add: data_at_def data_key_inject)
  qed simp
qed

lemma listMeta_roundtrip:
  "length (listMeta_Value meta) = 16"
  "BigEndian_Uint64 (take 8 (listMeta_Value meta)) = LIndex meta"
  "BigEndian_Uint64 (drop 8 (listMeta_Value meta)) = RIndex meta"
  by (simp_all add: listMeta_Value_def)

lemma listMeta_Value_nonempty: "listMeta_Value meta \<noteq> []"
  using listMeta_roundtrip(1) [of meta] by auto

text \<open>The element a Redis-style index names: from the left, or from the right when negative.\<close>

definition list_pos :: "int \<Rightarrow> 'a list \<Rightarrow> nat option" where
  "list_pos i xs =
     (if 0 \<le> i \<and> i < int (length xs) then Some (nat i)
      else if i < 0 \<and> - int (length xs) \<le> i then Some (nat (int (length xs) + i))
      else None)"

lemma sint_wrap:
  "- (2 ^ 64) < x \<Longrightarrow> x < 2 ^ 64 \<Longrightarrow>
   sint (ix x) = (if x < - (2 ^ 63) then x + 2 ^ 64 else if x < 2 ^ 63 then x else x - 2 ^ 64)"
proof -
  assume x: "- (2 ^ 64) < x" "x < 2 ^ 64"
  have "ix x = ix (x + 2 ^ 64)" "ix x = ix (x - 2 ^ 64)"
    by (simp_all add: ix_def)
  then show ?thesis
    using x sint_ix [of x] sint_ix [of "x + 2 ^ 64"] sint_ix [of "x - 2 ^ 64"] by (auto simp del: of_int_add)
qed

lemma adjustIndex_at:
  fixes i :: i64
  assumes "- (2 ^ 63) \<le> l" "l + int (length xs) < 2 ^ 63" "xs \<noteq> []"
  defines "j \<equiv> adjustIndex i (ix l) (ix (l + int (length xs)))"
  shows "case list_pos (sint i) xs of
      Some p \<Rightarrow> p < length xs \<and> j = ix (l + int p) \<and> l \<le> sint j \<and> sint j < l + int (length xs)
    | None \<Rightarrow> \<not> (l \<le> sint j \<and> sint j < l + int (length xs))"
proof -
  let ?x = "if 0 \<le> sint i then sint i + l else sint i + (l + int (length xs))"
  have j: "j = ix ?x"
    by (simp add: j_def adjustIndex_def ix_def)
  have "1 \<le> int (length xs)" using assms(3) by (cases xs) auto
  then have "- (2 ^ 64) < ?x" "?x < 2 ^ 64"
    using assms(1,2) sint_i64_bounds [of i] by auto
  note sint = sint_wrap [OF this]
  show ?thesis
  proof (cases "list_pos (sint i) xs")
    case None
    then show ?thesis
      using assms(1,2) sint_i64_bounds [of i] unfolding j sint
      by (auto simp: list_pos_def split: if_splits)
  next
    case (Some p)
    then have "p < length xs" "?x = l + int p"
      by (auto simp: list_pos_def split: if_splits)
    moreover from this have "sint (ix (l + int p)) = l + int p"
      using assms(1,2) by (intro sint_ix) auto
    ultimately show ?thesis
      using Some by (simp add: j)
  qed
qed

section \<open>Operations\<close>

context kv_store
begin

lemma loadListMeta_at:
  assumes "list_at (view s) t key l xs"
  shows "loadListMeta ops (encodeListMetaKey t key) s = (Inr (list_meta l (l + int (length xs))), s)"
  using assms
  by (auto simp: loadListMeta_def list_at_def tx_bind_def listMeta_roundtrip list_meta_def ix_arith
      split: if_splits)

lemma IsEmpty_at:
  assumes "list_at m t key l xs"
  shows "listMeta_IsEmpty (list_meta l (l + int (length xs))) \<longleftrightarrow> xs = []"
  using assms by (auto simp: listMeta_IsEmpty_def list_meta_def list_at_def sint_ix)

lemma RPush_loop:
  assumes "data_at (view s) t key l xs" "- (2 ^ 63) \<le> l" "l + int (length xs) + int (length vs) < 2 ^ 63"
    and "[] \<notin> set vs"
  shows "\<exists>s'. listPush_loop ops t key False (list_meta l (l + int (length xs))) vs s =
      (Inr (list_meta l (l + int (length (xs @ vs)))), s') \<and>
    data_at (view s') t key l (xs @ vs) \<and>
    (\<forall>k. k \<notin> range (encodeListDataKey t key) \<longrightarrow> view s' k = view s k)"
  using assms
proof (induction vs arbitrary: s xs)
  case (Cons v vs)
  let ?k = "encodeListDataKey t key (ix (l + int (length xs)))"
  have "v \<noteq> []" using Cons.prems(4) by auto
  then obtain s1 where s1: "kv_set ops ?k v s = (Inr (), s1)" "view s1 = (view s)(?k \<mapsto> v)"
    by (rule setE)
  have "data_at (view s1) t key l (xs @ [v])"
    unfolding s1(2) using Cons.prems(1-3) by (intro data_at_snoc) auto
  then obtain s' where s': "listPush_loop ops t key False (list_meta l (l + int (length (xs @ [v])))) vs s1 =
      (Inr (list_meta l (l + int (length ((xs @ [v]) @ vs)))), s')"
    "data_at (view s') t key l ((xs @ [v]) @ vs)"
    "\<forall>k. k \<notin> range (encodeListDataKey t key) \<longrightarrow> view s' k = view s1 k"
    using Cons.IH [of s1 "xs @ [v]"] Cons.prems by auto
  have e: "ix (l + int (length xs)) + 1 = ix (l + int (length (xs @ [v])))"
    unfolding ix_arith by (simp add: add.commute add.left_commute)
  have "listPush_loop ops t key False (list_meta l (l + int (length xs))) (v # vs) s =
      listPush_loop ops t key False (list_meta l (l + int (length (xs @ [v])))) vs s1"
    using s1(1) by (simp add: list_meta_def Let_def tx_bind_def e del: length_append)
  then show ?case
    using s' s1(2) by (intro exI [of _ s']) auto
qed auto

lemma LPush_loop:
  assumes "data_at (view s) t key l xs" "- (2 ^ 63) \<le> l - int (length vs)" "l + int (length xs) < 2 ^ 63"
    and "[] \<notin> set vs"
  shows "\<exists>s'. listPush_loop ops t key True (list_meta l r) vs s =
      (Inr (list_meta (l - int (length vs)) r), s') \<and>
    data_at (view s') t key (l - int (length vs)) (rev vs @ xs) \<and>
    (\<forall>k. k \<notin> range (encodeListDataKey t key) \<longrightarrow> view s' k = view s k)"
  using assms
proof (induction vs arbitrary: s xs l)
  case (Cons v vs)
  let ?k = "encodeListDataKey t key (ix (l - 1))"
  have "v \<noteq> []" using Cons.prems(4) by auto
  then obtain s1 where s1: "kv_set ops ?k v s = (Inr (), s1)" "view s1 = (view s)(?k \<mapsto> v)"
    by (rule setE)
  have "data_at (view s1) t key (l - 1) (v # xs)"
    unfolding s1(2) using Cons.prems(1-3) by (intro data_at_Cons) auto
  then obtain s' where s': "listPush_loop ops t key True (list_meta (l - 1) r) vs s1 =
      (Inr (list_meta (l - 1 - int (length vs)) r), s')"
    "data_at (view s') t key (l - 1 - int (length vs)) (rev vs @ v # xs)"
    "\<forall>k. k \<notin> range (encodeListDataKey t key) \<longrightarrow> view s' k = view s1 k"
    using Cons.IH [of s1 "l - 1" "v # xs"] Cons.prems by auto
  have "listPush_loop ops t key True (list_meta l r) (v # vs) s =
      listPush_loop ops t key True (list_meta (l - 1) r) vs s1"
    using s1(1) by (simp add: list_meta_def Let_def tx_bind_def ix_arith)
  then show ?case
    using s' s1(2) by (intro exI [of _ s']) (auto simp: diff_diff_eq)
qed auto

lemma push_ok:
  assumes "list_at (view s) t key l xs" "hasWriter t" "vs \<noteq> []" "[] \<notin> set vs"
    and "if left then - (2 ^ 63) \<le> l - int (length vs) else l + int (length xs) + int (length vs) < 2 ^ 63"
  shows "\<exists>s'. listPush ops t key left vs s = (Inr (), s') \<and>
    list_at (view s') t key (if left then l - int (length vs) else l) (if left then rev vs @ xs else xs @ vs) \<and>
    (\<forall>k \<in> off_list t key. view s' k = view s k)"
proof -
  let ?l = "if left then l - int (length vs) else l" and ?ys = "if left then rev vs @ xs else xs @ vs"
  have rng: "data_at (view s) t key l xs" "- (2 ^ 63) \<le> l" "l + int (length xs) < 2 ^ 63"
    using assms(1) by (auto simp: list_at_def)
  have r: "?l + int (length ?ys) = (if left then l + int (length xs) else l + int (length (xs @ vs)))"
    by simp
  obtain s1 where s1: "listPush_loop ops t key left (list_meta l (l + int (length xs))) vs s =
      (Inr (list_meta ?l (?l + int (length ?ys))), s1)"
    "data_at (view s1) t key ?l ?ys"
    "\<forall>k. k \<notin> range (encodeListDataKey t key) \<longrightarrow> view s1 k = view s k"
    unfolding r
    using LPush_loop [OF rng(1) _ rng(3) assms(4), of "l + int (length xs)"]
      RPush_loop [OF rng(1,2) _ assms(4)] assms(5) by (cases left) auto
  obtain s' where s': "kv_set ops (encodeListMetaKey t key) (listMeta_Value (list_meta ?l (?l + int (length ?ys)))) s1 = (Inr (), s')"
    "view s' = (view s1)(encodeListMetaKey t key \<mapsto> listMeta_Value (list_meta ?l (?l + int (length ?ys))))"
    by (rule setE [OF listMeta_Value_nonempty])
  have "listPush ops t key left vs s = (Inr (), s')"
    using assms(2,3) s1(1) s'(1)
    by (simp add: listPush_def tx_bind_def loadListMeta_at [OF assms(1)] Let_def)
  moreover have "list_at (view s') t key ?l ?ys"
    using rng assms(3,5) s1(2) s'(2)
    by (auto simp: list_at_def split: if_splits)
  moreover have "\<forall>k \<in> off_list t key. view s' k = view s k"
    using s1(3) s'(2) by (auto simp: off_list_def)
  ultimately show ?thesis by blast
qed

lemma data_at_tl:
  "data_at m t key l (x # xs) \<Longrightarrow> data_at m t key (l + 1) xs"
  unfolding data_at_def
proof (intro allI impI)
  fix i assume *: "\<forall>i<length (x # xs). m (encodeListDataKey t key (ix (l + int i))) = Some ((x # xs) ! i)"
    and i: "i < length xs"
  show "m (encodeListDataKey t key (ix (l + 1 + int i))) = Some (xs ! i)"
    using * [rule_format, of "Suc i"] i by (simp add: add.assoc)
qed

lemma data_at_del_off:
  assumes "data_at m t key l xs" "\<And>i. i < length xs \<Longrightarrow> ix (l + int i) \<noteq> j"
  shows "data_at (m(encodeListDataKey t key j := v)) t key l xs"
  using assms by (auto simp: data_at_def data_key_inject)

text \<open>Removing the element at one end and storing the new meta data.\<close>

lemma pop_ok:
  fixes left :: bool
  assumes "list_at (view s) t key l xs" "hasWriter t" "xs \<noteq> []"
  defines "ys \<equiv> if left then tl xs else butlast xs"
  defines "l' \<equiv> if ys = [] then 0 else if left then l + 1 else l"
  shows "\<exists>s'. listPop ops t key left s = (Inr (Some (if left then hd xs else last xs)), s') \<and>
    list_at (view s') t key l' ys \<and> (\<forall>k \<in> off_list t key. view s' k = view s k)"
proof -
  let ?r = "l + int (length xs)"
  let ?m = "if left then list_meta (l + 1) ?r else list_meta l (?r - 1)"
  let ?i = "if left then ix l else ix (?r - 1)"
  let ?x = "if left then hd xs else last xs"
  let ?dk = "encodeListDataKey t key ?i" and ?mk = "encodeListMetaKey t key"
  have rng: "data_at (view s) t key l xs" "- (2 ^ 63) \<le> l" "?r < 2 ^ 63" and pos: "0 < length xs"
    using assms(1,3) by (auto simp: list_at_def)
  have len: "length ys = length xs - 1" by (simp add: ys_def)
  then have ilen: "int (length ys) = int (length xs) - 1" using pos by linarith
  have empty: "listMeta_IsEmpty ?m \<longleftrightarrow> ys = []"
  proof -
    have "ys = [] \<longleftrightarrow> length ys = 0" by simp
    then have "ys = [] \<longleftrightarrow> length xs = 1" unfolding len using pos by linarith
    moreover have "1 \<le> int (length xs)" using pos by linarith
    moreover have "sint (ix l) = l" "sint (ix (l + 1)) = l + 1" "sint (ix ?r) = ?r" "sint (ix (?r - 1)) = ?r - 1"
      using rng(2,3) \<open>1 \<le> int (length xs)\<close> by (auto intro!: sint_ix)
    ultimately show ?thesis
      by (auto simp: listMeta_IsEmpty_def list_meta_def)
  qed
  have get: "view s ?dk = Some ?x"
    using rng(1) pos
    by (cases xs rule: rev_cases) (auto simp: data_at_def hd_conv_nth nth_append dest!: spec [of _ "length xs - 1"] spec [of _ 0])
  obtain s1 where s1: "kv_delete ops ?dk s = (Inr (), s1)" "view s1 = (view s)(?dk := None)"
    by (rule deleteE)
  obtain s2 where s2: "kv_set ops ?mk (listMeta_Value ?m) s1 = (Inr (), s2)"
      "view s2 = (view s1)(?mk \<mapsto> listMeta_Value ?m)"
    by (rule setE [OF listMeta_Value_nonempty])
  obtain s3 where s3: "kv_delete ops ?mk s1 = (Inr (), s3)" "view s3 = (view s1)(?mk := None)"
    by (rule deleteE)
  define s' where "s' = (if ys = [] then s3 else s2)"
  have s': "view s' = (view s1)(?mk := if ys = [] then None else Some (listMeta_Value ?m))"
    using s2(2) s3(2) by (simp add: s'_def)
  have "listPop ops t key left s =
      tx_bind (if \<not> listMeta_IsEmpty ?m then kv_set ops ?mk (listMeta_Value ?m) else kv_delete ops ?mk)
        (\<lambda>_. tx_return (Some ?x)) s1"
    using assms(2,3) IsEmpty_at [OF assms(1)] get_simps(2) [OF get] s1(1)
    by (cases left) (simp_all add: listPop_def Let_def tx_bind_def loadListMeta_at [OF assms(1)] ix_arith)
  also have "\<dots> = (Inr (Some ?x), s')"
    using s2(1) s3(1) by (cases "ys = []") (simp_all only: empty s'_def tx_bind_def if_True if_False not_True_eq_False not_False_eq_True, simp_all)
  finally have "listPop ops t key left s = (Inr (Some ?x), s')" .
  moreover have "list_at (view s') t key l' ys"
  proof (cases "ys = []")
    case True
    then show ?thesis using s' by (simp add: list_at_def l'_def data_at_def)
  next
    case False
    have "data_at (view s) t key l' ys"
    proof (cases left)
      case True
      then show ?thesis
        using rng(1) data_at_tl [of "view s" t key l "hd xs" "tl xs"] assms(3) False
        by (simp add: l'_def ys_def)
    next
      case False
      then show ?thesis
        using rng(1) \<open>ys \<noteq> []\<close> by (auto simp: l'_def ys_def data_at_def nth_butlast)
    qed
    moreover have "ix (l' + int i) \<noteq> ?i" if "i < length ys" for i
      using that rng(2,3) len False by (cases left) (auto simp: l'_def ix_inject)
    ultimately have "data_at (view s1) t key l' ys"
      unfolding s1(2) by (rule data_at_del_off)
    moreover have "?m = list_meta l' (l' + int (length ys))"
      using False by (auto simp: l'_def ilen add.commute add_diff_eq)
    ultimately show ?thesis
      using False rng(2,3) s' by (auto simp: list_at_def l'_def ilen)
  qed
  moreover have "\<forall>k \<in> off_list t key. view s' k = view s k"
    using s1(2) s' by (auto simp: off_list_def)
  ultimately show ?thesis by blast
qed

lemma LGetAll_loop_at:
  assumes "data_at (view s) t key l xs" "- (2 ^ 63) < l" "l + int (length xs) < 2 ^ 63" "n \<le> length xs"
  shows "LGetAll_loop ops t key (ix l) (ix (l + int n - 1)) acc s = Some (Inr (acc @ rev (take n xs)))"
  using assms(4)
proof (induction n arbitrary: acc)
  case 0
  have "sint (ix (l - 1)) = l - 1" "sint (ix l) = l"
    using assms(2,3) by (auto intro!: sint_ix)
  then show ?case by (subst LGetAll_loop.simps) simp
next
  case (Suc n)
  have "sint (ix (l + int n)) = l + int n" "sint (ix l) = l"
    using assms(2,3) Suc.prems by (auto intro!: sint_ix)
  moreover have "view s (encodeListDataKey t key (ix (l + int n))) = Some (xs ! n)"
    using assms(1) Suc.prems by (simp add: data_at_def)
  ultimately have "LGetAll_loop ops t key (ix l) (ix (l + int (Suc n) - 1)) acc s =
      LGetAll_loop ops t key (ix l) (ix (l + int n - 1)) (acc @ [xs ! n]) s"
    by (subst LGetAll_loop.simps) (simp add: get_simps ix_arith)
  then show ?case
    using Suc by (simp add: take_Suc_conv_app_nth)
qed

lemma LGetAll_at:
  assumes "list_at (view s) t key l xs" "- (2 ^ 63) < l"
  shows "LGetAll ops t key s = Some (Inr (rev xs))"
proof (cases "xs = []")
  case True
  then show ?thesis
    using loadListMeta_at [OF assms(1)] IsEmpty_at [OF assms(1)] by (simp add: LGetAll_def)
next
  case False
  have "data_at (view s) t key l xs" "l + int (length xs) < 2 ^ 63"
    using assms(1) by (auto simp: list_at_def)
  then show ?thesis
    using False assms(2) loadListMeta_at [OF assms(1)] IsEmpty_at [OF assms(1)]
      LGetAll_loop_at [of s t key l xs "length xs" "[]"]
    by (simp add: LGetAll_def ix_arith)
qed

lemma LLen_at:
  "list_at (view s) t key l xs \<Longrightarrow> LLen ops t key s = (Inr (word_of_nat (length xs)), s)"
  by (simp add: LLen_def tx_bind_def loadListMeta_at ix_arith) (simp add: ix_def)

lemma LIndex_get_at:
  assumes "list_at (view s) t key l xs"
  shows "LIndex_get ops t key i s = (Inr (map_option (nth xs) (list_pos (sint i) xs)), s)"
proof (cases "xs = []")
  case True
  then show ?thesis
    using loadListMeta_at [OF assms] IsEmpty_at [OF assms]
    by (simp add: LIndex_get_def tx_bind_def list_pos_def)
next
  case False
  let ?j = "adjustIndex i (ix l) (ix (l + int (length xs)))"
  have rng: "- (2 ^ 63) \<le> l" "l + int (length xs) < 2 ^ 63" "data_at (view s) t key l xs"
    using assms by (auto simp: list_at_def)
  have "sint (ix l) = l" "sint (ix (l + int (length xs))) = l + int (length xs)"
    using rng by (auto intro!: sint_ix)
  then show ?thesis
    using adjustIndex_at [OF rng(1,2) False, of i] loadListMeta_at [OF assms] IsEmpty_at [OF assms] False rng(3)
    by (auto simp: LIndex_get_def tx_bind_def Let_def data_at_def get_simps split: option.splits)
qed

lemma data_at_upd:
  assumes "data_at m t key l xs" "- (2 ^ 63) \<le> l" "l + int (length xs) < 2 ^ 63" "p < length xs"
  shows "data_at (m(encodeListDataKey t key (ix (l + int p)) \<mapsto> v)) t key l (xs[p := v])"
  using assms by (auto simp: data_at_def data_key_inject ix_inject nth_list_update)

lemma LSet_at:
  assumes "list_at (view s) t key l xs" "hasWriter t" "v \<noteq> []" "list_pos (sint i) xs = Some p"
  shows "\<exists>s'. LSet ops t key i v s = (Inr (), s') \<and> list_at (view s') t key l (xs[p := v]) \<and>
    (\<forall>k \<in> off_list t key. view s' k = view s k)"
proof -
  let ?j = "adjustIndex i (ix l) (ix (l + int (length xs)))"
  have rng: "- (2 ^ 63) \<le> l" "l + int (length xs) < 2 ^ 63" "data_at (view s) t key l xs"
    using assms(1) by (auto simp: list_at_def)
  have ne: "xs \<noteq> []" using assms(4) by (auto simp: list_pos_def split: if_splits)
  have j: "p < length xs" "?j = ix (l + int p)" "l \<le> sint ?j" "sint ?j < l + int (length xs)"
    using adjustIndex_at [OF rng(1,2) ne, of i] unfolding assms(4) option.case by blast+
  obtain s' where s': "kv_set ops (encodeListDataKey t key ?j) v s = (Inr (), s')"
      "view s' = (view s)(encodeListDataKey t key ?j \<mapsto> v)"
    using assms(3) by (rule setE)
  have "sint (ix l) = l" "sint (ix (l + int (length xs))) = l + int (length xs)"
    using rng by (auto intro!: sint_ix)
  then have "LSet ops t key i v s = (Inr (), s')"
    using assms(2) ne j(3,4) s'(1) loadListMeta_at [OF assms(1)] IsEmpty_at [OF assms(1)]
    by (simp add: LSet_def tx_bind_def Let_def)
  moreover have "list_at (view s') t key l (xs[p := v])"
    using assms(1) data_at_upd [OF rng(3,1,2) j(1), of v] ne s'(2)
    by (simp add: list_at_def j(2) data_key_neq_meta [symmetric])
  moreover have "\<forall>k \<in> off_list t key. view s' k = view s k"
    using s'(2) by (auto simp: off_list_def)
  ultimately show ?thesis by blast
qed

lemma LSet_out:
  assumes "list_at (view s) t key l xs" "hasWriter t" "list_pos (sint i) xs = None"
  shows "snd (LSet ops t key i v s) = s"
proof (cases "xs = []")
  case True
  then show ?thesis
    using loadListMeta_at [OF assms(1)] IsEmpty_at [OF assms(1)] assms(2)
    by (simp add: LSet_def tx_bind_def)
next
  case False
  have rng: "- (2 ^ 63) \<le> l" "l + int (length xs) < 2 ^ 63"
    using assms(1) by (auto simp: list_at_def)
  then have "sint (ix l) = l" "sint (ix (l + int (length xs))) = l + int (length xs)"
    by (auto intro!: sint_ix)
  then show ?thesis
    using adjustIndex_at [OF rng False, of i] loadListMeta_at [OF assms(1)] IsEmpty_at [OF assms(1)]
      False assms(2,3)
    by (auto simp: LSet_def tx_bind_def Let_def)
qed

lemma LClear_loop_at:
  assumes "- (2 ^ 63) \<le> l" "l + int n < 2 ^ 63"
  shows "\<exists>s'. LClear_loop ops t key (ix (l + int n)) (ix l) s = (Inr (), s') \<and>
    view s' = (view s) |` (- encodeListDataKey t key ` ix ` {l..<l + int n})"
  using assms
proof (induction n arbitrary: l s)
  case 0
  then show ?case by (subst LClear_loop.simps) (simp add: restrict_map_def)
next
  case (Suc n)
  have sints: "sint (ix l) = l" "sint (ix (l + int (Suc n))) = l + int (Suc n)"
    using Suc.prems by (auto intro!: sint_ix)
  obtain d where d: "kv_delete ops (encodeListDataKey t key (ix l)) s = (Inr (), d)"
      "view d = (view s)(encodeListDataKey t key (ix l) := None)"
    by (rule deleteE)
  have e: "l + int (Suc n) = l + 1 + int n" by simp
  obtain s' where s': "LClear_loop ops t key (ix (l + 1 + int n)) (ix (l + 1)) d = (Inr (), s')"
      "view s' = (view d) |` (- encodeListDataKey t key ` ix ` {l + 1..<l + 1 + int n})"
    using Suc.IH [of "l + 1" d] Suc.prems by auto
  have "LClear_loop ops t key (ix (l + int (Suc n))) (ix l) s = (Inr (), s')"
    using sints d(1) s'(1) unfolding e
    by (subst LClear_loop.simps) (simp add: tx_bind_def ix_arith)
  moreover have "{l..<l + int (Suc n)} = insert l {l + 1..<l + 1 + int n}" by auto
  then have "view s' = (view s) |` (- encodeListDataKey t key ` ix ` {l..<l + int (Suc n)})"
    unfolding s'(2) d(2) by (auto simp: restrict_map_def)
  ultimately show ?case by blast
qed

lemma LClear_at:
  assumes "list_at (view s) t key l xs" "hasWriter t"
  shows "\<exists>s'. LClear ops t key s = (Inr (), s') \<and> list_at (view s') t key 0 [] \<and>
    (\<forall>k \<in> off_list t key. view s' k = view s k)"
proof (cases "xs = []")
  case True
  then show ?thesis
    using assms loadListMeta_at [OF assms(1)] IsEmpty_at [OF assms(1)]
    by (intro exI [of _ s]) (auto simp: LClear_def tx_bind_def Let_def list_at_def)
next
  case False
  have "- (2 ^ 63) \<le> l" "l + int (length xs) < 2 ^ 63"
    using assms(1) by (auto simp: list_at_def)
  then obtain s1 where s1: "LClear_loop ops t key (ix (l + int (length xs))) (ix l) s = (Inr (), s1)"
      "view s1 = (view s) |` (- encodeListDataKey t key ` ix ` {l..<l + int (length xs)})"
    using LClear_loop_at by blast
  obtain s' where s': "kv_delete ops (encodeListMetaKey t key) s1 = (Inr (), s')"
      "view s' = (view s1)(encodeListMetaKey t key := None)"
    by (rule deleteE)
  have "LClear ops t key s = (Inr (), s')"
    using assms False s1(1) s'(1) loadListMeta_at [OF assms(1)] IsEmpty_at [OF assms(1)]
    by (simp add: LClear_def tx_bind_def Let_def)
  then show ?thesis
    using s1(2) s'(2) by (intro exI [of _ s']) (auto simp: list_at_def data_at_def off_list_def restrict_map_def)
qed

end

section \<open>Properties\<close>

text \<open>A list of one element, for the examples.\<close>

definition one_list :: "TxStructure \<Rightarrow> bytes \<Rightarrow> bytes \<Rightarrow> mem_kv" where
  "one_list t key x =
     [(encodeListMetaKey t key, listMeta_Value (list_meta 0 1)), (encodeListDataKey t key (ix 0), x)]"

lemma one_list_at: "list_at (map_of (one_list t key x)) t key 0 [x]"
  by (simp add: list_at_def one_list_def data_at_def data_key_neq_meta)

text \<open>
  C24: pushing refines appending. For a list that stores \<open>xs\<close> with its first element
  at index \<open>l\<close>, and room for the new indices, \<^verbatim>\<open>RPush\<close> leaves a list that stores \<open>xs @ vs\<close>, \<^verbatim>\<open>LPush\<close>
  one that stores \<open>rev vs @ xs\<close>, and no key outside of the list changes.
\<close>

theorem list_push_refines:
  assumes "kv_store ops view" "hasWriter t" "list_at (view s) t key l xs" "vs \<noteq> []" "[] \<notin> set vs"
    and "- (2 ^ 63) \<le> l - int (length vs)" "l + int (length xs) + int (length vs) < 2 ^ 63"
  shows "(\<exists>s'. RPush ops t key vs s = (Inr (), s') \<and> list_at (view s') t key l (xs @ vs) \<and>
      (\<forall>k \<in> off_list t key. view s' k = view s k)) \<and>
    (\<exists>s'. LPush ops t key vs s = (Inr (), s') \<and>
      list_at (view s') t key (l - int (length vs)) (rev vs @ xs) \<and>
      (\<forall>k \<in> off_list t key. view s' k = view s k))"
  using kv_store.push_ok [OF assms(1,3,2,4,5), of False] kv_store.push_ok [OF assms(1,3,2,4,5), of True]
    assms(6,7)
  by (simp add: RPush_def LPush_def)

theorem list_push_refines_witness:
  "(\<exists>s'. RPush mem_ops (NewStructure True [109]) [1] [[7], [8]] [] = (Inr (), s') \<and>
      list_at (map_of s') (NewStructure True [109]) [1] 0 ([] @ [[7], [8]]) \<and>
      (\<forall>k \<in> off_list (NewStructure True [109]) [1]. map_of s' k = map_of [] k)) \<and>
   (\<exists>s'. LPush mem_ops (NewStructure True [109]) [1] [[7], [8]] [] = (Inr (), s') \<and>
      list_at (map_of s') (NewStructure True [109]) [1] (0 - int (length [[7 :: byte], [8]])) (rev [[7], [8]] @ []) \<and>
      (\<forall>k \<in> off_list (NewStructure True [109]) [1]. map_of s' k = map_of [] k))"
  by (rule list_push_refines [OF mem.kv_store_axioms])
    (simp_all add: NewStructure_def list_at_def data_at_def)

text \<open>
  C25: popping refines taking off an end. \<^verbatim>\<open>LPop\<close> of an empty list returns nil and
  changes nothing; otherwise \<^verbatim>\<open>LPop\<close> returns the first element and leaves the tail, \<^verbatim>\<open>RPop\<close> the last
  element and leaves the rest. When the last element goes the meta data goes too, and the next list
  at the key starts from index 0 again.
\<close>

theorem list_pop_refines:
  assumes "kv_store ops view" "hasWriter t" "list_at (view s) t key l xs"
  shows "if xs = [] then LPop ops t key s = (Inr None, s) \<and> RPop ops t key s = (Inr None, s)
    else
      (\<exists>s'. LPop ops t key s = (Inr (Some (hd xs)), s') \<and>
        list_at (view s') t key (if tl xs = [] then 0 else l + 1) (tl xs) \<and>
        (\<forall>k \<in> off_list t key. view s' k = view s k)) \<and>
      (\<exists>s'. RPop ops t key s = (Inr (Some (last xs)), s') \<and>
        list_at (view s') t key (if butlast xs = [] then 0 else l) (butlast xs) \<and>
        (\<forall>k \<in> off_list t key. view s' k = view s k))"
proof (cases "xs = []")
  case True
  then show ?thesis
    using assms(2) kv_store.loadListMeta_at [OF assms(1,3)] kv_store.IsEmpty_at [OF assms(1,3)]
    by (simp add: LPop_def RPop_def listPop_def tx_bind_def Let_def)
next
  case False
  show ?thesis
    unfolding if_not_P [OF False] LPop_def RPop_def
    using kv_store.pop_ok [OF assms(1,3,2) False, of True, unfolded if_True]
      kv_store.pop_ok [OF assms(1,3,2) False, of False, unfolded if_False]
    by (rule conjI)
qed

theorem list_pop_refines_witness:
  "\<exists>s'. LPop mem_ops (NewStructure True [109]) [1] (one_list (NewStructure True [109]) [1] [7]) =
      (Inr (Some [7]), s') \<and> list_at (map_of s') (NewStructure True [109]) [1] 0 []"
  using list_pop_refines [OF mem.kv_store_axioms _ one_list_at [of "NewStructure True [109]" "[1]" "[7]"]]
  by (auto simp: NewStructure_def)

text \<open>
  C26: reading and writing a list by position. \<^verbatim>\<open>LLen\<close> is the length, \<^verbatim>\<open>LGetAll\<close>
  returns (it does not loop) with the elements from right to left, \<^verbatim>\<open>LIndex\<close> gives the element at an
  index counted from the left or, when negative, from the right, and nil outside of the list whatever
  the int64 index; \<^verbatim>\<open>LSet\<close> replaces that element; \<^verbatim>\<open>LClear\<close> leaves the empty list. The first index
  must not be the smallest int64, below which the counter of \<^verbatim>\<open>LGetAll\<close> wraps around.
\<close>

theorem list_access_refines:
  assumes "kv_store ops view" "hasWriter t" "list_at (view s) t key l xs" "- (2 ^ 63) < l" "v \<noteq> []"
  shows "LLen ops t key s = (Inr (word_of_nat (length xs)), s) \<and>
    LGetAll ops t key s = Some (Inr (rev xs)) \<and>
    LIndex_get ops t key i s = (Inr (map_option (nth xs) (list_pos (sint i) xs)), s) \<and>
    (case list_pos (sint i) xs of
       Some p \<Rightarrow> \<exists>s'. LSet ops t key i v s = (Inr (), s') \<and> list_at (view s') t key l (xs[p := v]) \<and>
         (\<forall>k \<in> off_list t key. view s' k = view s k)
     | None \<Rightarrow> snd (LSet ops t key i v s) = s) \<and>
    (\<exists>s'. LClear ops t key s = (Inr (), s') \<and> list_at (view s') t key 0 [] \<and>
       (\<forall>k \<in> off_list t key. view s' k = view s k))"
proof (intro conjI)
  show "LLen ops t key s = (Inr (word_of_nat (length xs)), s)"
    using assms(1,3) by (rule kv_store.LLen_at)
  show "LGetAll ops t key s = Some (Inr (rev xs))"
    using assms(1,3,4) by (rule kv_store.LGetAll_at)
  show "LIndex_get ops t key i s = (Inr (map_option (nth xs) (list_pos (sint i) xs)), s)"
    using assms(1,3) by (rule kv_store.LIndex_get_at)
  show "\<exists>s'. LClear ops t key s = (Inr (), s') \<and> list_at (view s') t key 0 [] \<and>
       (\<forall>k \<in> off_list t key. view s' k = view s k)"
    using assms(1,3,2) by (rule kv_store.LClear_at)
  show "case list_pos (sint i) xs of
       Some p \<Rightarrow> \<exists>s'. LSet ops t key i v s = (Inr (), s') \<and> list_at (view s') t key l (xs[p := v]) \<and>
         (\<forall>k \<in> off_list t key. view s' k = view s k)
     | None \<Rightarrow> snd (LSet ops t key i v s) = s"
  proof (cases "list_pos (sint i) xs")
    case None
    then show ?thesis using kv_store.LSet_out [OF assms(1,3,2) None] by simp
  next
    case (Some p)
    then show ?thesis using kv_store.LSet_at [OF assms(1,3,2,5) Some] by simp
  qed
qed

theorem list_access_refines_witness:
  "LGetAll mem_ops (NewStructure True [109]) [1] (one_list (NewStructure True [109]) [1] [7]) =
     Some (Inr (rev [[7]]))"
  using list_access_refines [OF mem.kv_store_axioms _ one_list_at [of "NewStructure True [109]" "[1]" "[7]"], of "[9]"]
  by (simp add: NewStructure_def)

end
