(* ===== verification/Mvcc_Lock.thy ===== *)
theory Mvcc_Lock
  imports Codec_Bytes
begin

text \<open>
  The data of the transactional store (\<^verbatim>\<open>store/mockstore/unistore/tikv/mvcc\<close>): the lock record
  and its layout in memory, the user meta of a committed version, the keys under which the
  status of a transaction is kept, and the column family values of TiKV.

  A lock is stored as the memory image of its header, a Go struct of 40 bytes on a
  little-endian machine with the usual alignment, followed by the primary key, the
  secondary keys and the value. Decoding bytes that no lock was marshalled to may panic;
  the decoder then is \<open>None\<close>. (Go slices up to the capacity of an array, so that on
  such bytes the code may also read zeros behind the end.)
\<close>

section \<open>encoding/binary: little-endian integers\<close>

definition LittleEndian_Put :: "nat \<Rightarrow> 'a::len word \<Rightarrow> bytes" where
  "LittleEndian_Put n v = map (\<lambda>i. ucast (drop_bit (8 * i) v)) [0..<n]"

definition LittleEndian_Uint :: "nat \<Rightarrow> bytes \<Rightarrow> 'a::len word" where
  "LittleEndian_Uint n b = foldr (\<lambda>c v. push_bit 8 v OR ucast c) (take n b) 0"

lemma length_LittleEndian_Put [simp]: "length (LittleEndian_Put n v) = n"
  by (simp add: LittleEndian_Put_def)

lemma foldr_LittleEndian:
  assumes "LENGTH('a) \<le> 8 * n" "k \<le> n"
  shows "foldr (\<lambda>c v. push_bit 8 v OR ucast c)
           (map (\<lambda>i. ucast (drop_bit (8 * i) v) :: byte) [k..<n]) 0 = drop_bit (8 * k) (v :: 'a::len word)"
  using assms(2)
proof (induction k rule: inc_induct)
  case base
  show ?case
    using assms(1) by (intro bit_word_eqI) (auto simp: bit_simps dest: bit_imp_le_length)
next
  case (step k)
  have "push_bit 8 (drop_bit (8 * Suc k) v) OR ucast (ucast (drop_bit (8 * k) v) :: byte) = drop_bit (8 * k) v"
    by (rule bit_word_eqI) (auto simp: bit_simps add.commute dest: bit_imp_le_length)
  then show ?case
    using step by (simp add: upt_conv_Cons)
qed

lemma LittleEndian_Uint_Put [simp]:
  "LENGTH('a) \<le> 8 * n \<Longrightarrow> LittleEndian_Uint n (LittleEndian_Put n v @ rest) = (v :: 'a::len word)"
  using foldr_LittleEndian [where k = 0 and v = v] by (simp add: LittleEndian_Uint_def LittleEndian_Put_def)

lemma LittleEndian_Uint_Put_nil [simp]:
  "LENGTH('a) \<le> 8 * n \<Longrightarrow> LittleEndian_Uint n (LittleEndian_Put n v) = (v :: 'a::len word)"
  using LittleEndian_Uint_Put [of n v "[]"] by simp

lemma drop_LittleEndian_Put [simp]:
  "drop n (LittleEndian_Put n v @ rest) = rest" "take n (LittleEndian_Put n v @ rest) = LittleEndian_Put n v"
  by simp_all

section \<open>Operations of mutations and locks\<close>

text \<open>\<^verbatim>\<open>kvrpcpb.Op\<close>, numbered as the protocol numbers it.\<close>

datatype pb_op = Op_Put | Op_Del | Op_Lock | Op_Rollback | Op_Insert | Op_PessimisticLock | Op_CheckNotExists

primrec op_code :: "pb_op \<Rightarrow> byte" where
  "op_code Op_Put = 0"
| "op_code Op_Del = 1"
| "op_code Op_Lock = 2"
| "op_code Op_Rollback = 3"
| "op_code Op_Insert = 4"
| "op_code Op_PessimisticLock = 5"
| "op_code Op_CheckNotExists = 6"

lemma op_code_inject [simp]: "op_code a = op_code b \<longleftrightarrow> a = b"
  by (cases a; cases b) simp_all

section \<open>Locks\<close>

record LockHdr =
  StartTS :: u64
  ForUpdateTS :: u64
  MinCommitTS :: u64
  TTL :: "32 word"
  Op :: byte
  HasOldVer :: bool
  PrimaryLen :: "16 word"
  UseAsyncCommit :: bool
  SecondaryNum :: "32 word"

definition mvccLockHdrSize :: nat where "mvccLockHdrSize = 40"

record Lock = LockHdr +
  Primary :: bytes
  Value :: bytes
  Secondaries :: "bytes list"

definition hdr_image :: "'a LockHdr_scheme \<Rightarrow> bytes" where
  "hdr_image l =
     LittleEndian_Put 8 (StartTS l) @ LittleEndian_Put 8 (ForUpdateTS l) @ LittleEndian_Put 8 (MinCommitTS l) @
     LittleEndian_Put 4 (TTL l) @ [Op l] @ [of_bool (HasOldVer l)] @ LittleEndian_Put 2 (PrimaryLen l) @
     [of_bool (UseAsyncCommit l)] @ [0, 0, 0] @ LittleEndian_Put 4 (SecondaryNum l)"

primrec marshal_secondaries :: "bytes list \<Rightarrow> bytes" where
  "marshal_secondaries [] = []"
| "marshal_secondaries (s # ss) =
     LittleEndian_Put 2 (of_nat (length s) :: 16 word) @ s @ marshal_secondaries ss"

definition MarshalBinary :: "Lock \<Rightarrow> bytes" where
  "MarshalBinary l =
     hdr_image l @ Primary l @
     (if SecondaryNum l > 0 then marshal_secondaries (Secondaries l) else []) @ Value l"

fun DecodeLock_loop :: "nat \<Rightarrow> bytes \<Rightarrow> (bytes list \<times> bytes) option" where
  "DecodeLock_loop 0 b = Some ([], b)"
| "DecodeLock_loop (Suc n) b =
     (if length b < 2 then None
      else let keyLen = unat (LittleEndian_Uint 2 b :: 16 word); b = drop 2 b
        in if length b < keyLen then None
           else map_option (\<lambda>(ss, b'). (take keyLen b # ss, b')) (DecodeLock_loop n (drop keyLen b)))"

definition DecodeLock :: "bytes \<Rightarrow> Lock option" where
  "DecodeLock data =
     (if length data < mvccLockHdrSize then None
      else let
          primaryLen = LittleEndian_Uint 2 (drop 30 data);
          secondaryNum = LittleEndian_Uint 4 (drop 36 data);
          lockBuf = drop mvccLockHdrSize data
        in if length lockBuf < unat primaryLen then None
           else map_option (\<lambda>(ss, v).
               \<lparr>StartTS = LittleEndian_Uint 8 data, ForUpdateTS = LittleEndian_Uint 8 (drop 8 data),
                MinCommitTS = LittleEndian_Uint 8 (drop 16 data), TTL = LittleEndian_Uint 4 (drop 24 data),
                Op = data ! 28, HasOldVer = (data ! 29 \<noteq> 0), PrimaryLen = primaryLen,
                UseAsyncCommit = (data ! 32 \<noteq> 0), SecondaryNum = secondaryNum,
                Primary = take (unat primaryLen) lockBuf, Value = v, Secondaries = ss\<rparr>)
             (DecodeLock_loop (unat secondaryNum) (drop (unat primaryLen) lockBuf)))"

text \<open>The locks the store builds: the counts of the header are those of the parts.\<close>

definition wf_lock :: "Lock \<Rightarrow> bool" where
  "wf_lock l \<longleftrightarrow>
     unat (PrimaryLen l) = length (Primary l) \<and> unat (SecondaryNum l) = length (Secondaries l) \<and>
     list_all (\<lambda>s. length s < 2 ^ 16) (Secondaries l)"

record LockInfo =
  li_PrimaryLock :: bytes
  li_LockVersion :: u64
  li_Key :: bytes
  li_LockTtl :: u64
  li_LockType :: byte
  li_LockForUpdateTs :: u64
  li_UseAsyncCommit :: bool
  li_MinCommitTs :: u64
  li_Secondaries :: "bytes list"

definition ToLockInfo :: "Lock \<Rightarrow> bytes \<Rightarrow> LockInfo" where
  "ToLockInfo l key =
     \<lparr>li_PrimaryLock = Primary l, li_LockVersion = StartTS l, li_Key = key, li_LockTtl = ucast (TTL l),
      li_LockType = Op l, li_LockForUpdateTs = ForUpdateTS l, li_UseAsyncCommit = UseAsyncCommit l,
      li_MinCommitTs = MinCommitTS l, li_Secondaries = Secondaries l\<rparr>"

section \<open>User meta and status keys\<close>

definition NewDBUserMeta :: "u64 \<Rightarrow> u64 \<Rightarrow> bytes" where
  "NewDBUserMeta startTS commitTS = LittleEndian_Put 8 startTS @ LittleEndian_Put 8 commitTS"

definition DBUserMeta_CommitTS :: "bytes \<Rightarrow> u64" where
  "DBUserMeta_CommitTS m = LittleEndian_Uint 8 (drop 8 m)"

definition DBUserMeta_StartTS :: "bytes \<Rightarrow> u64" where
  "DBUserMeta_StartTS m = LittleEndian_Uint 8 (take 8 m)"

definition DecodeKeyTS :: "bytes \<Rightarrow> u64 option" where
  "DecodeKeyTS buf =
     (if length buf < 8 then None
      else case DecodeUintDesc (drop (length buf - 8) buf) of
        Inl _ \<Rightarrow> None
      | Inr (_, ts) \<Rightarrow> Some ts)"

definition EncodeExtraTxnStatusKey :: "bytes \<Rightarrow> u64 \<Rightarrow> bytes" where
  "EncodeExtraTxnStatusKey key startTS =
     (let ret = EncodeUintDesc key startTS in ret[0 := ret ! 0 + 1])"

definition DecodeExtraTxnStatusKey :: "bytes \<Rightarrow> bytes" where
  "DecodeExtraTxnStatusKey extraKey =
     (if length extraKey \<le> 9 then []
      else let key = take (length extraKey - 8) extraKey in key[0 := key ! 0 - 1])"

section \<open>Column family values\<close>

datatype cf_error =
    InvalidWriteCFValue
  | InvalidLockCFValue
  | CF_Codec codec_error
  | CF_Panic

definition cf :: "codec_error + 'a \<Rightarrow> cf_error + 'a" where
  "cf r = (case r of Inl e \<Rightarrow> Inl (CF_Codec e) | Inr a \<Rightarrow> Inr a)"

definition WriteTypeLock :: byte where "WriteTypeLock = 76"
definition WriteTypeRollback :: byte where "WriteTypeRollback = 82"
definition WriteTypeDelete :: byte where "WriteTypeDelete = 68"
definition WriteTypePut :: byte where "WriteTypePut = 80"

record WriteCFValue =
  wv_Type :: byte
  wv_StartTS :: u64
  wv_ShortVal :: bytes

definition ParseWriteCFValue :: "bytes \<Rightarrow> cf_error + WriteCFValue" where
  "ParseWriteCFValue data =
     (if data = [] then Inl InvalidWriteCFValue
      else if data ! 0 \<notin> {WriteTypePut, WriteTypeDelete, WriteTypeLock, WriteTypeRollback}
      then Inl InvalidWriteCFValue
      else res_bind (cf (DecodeUvarint (drop 1 data)))
        (\<lambda>(shortVal, startTS).
          Inr \<lparr>wv_Type = data ! 0, wv_StartTS = startTS, wv_ShortVal = shortVal\<rparr>))"

definition shortValuePrefix :: byte where "shortValuePrefix = 118"
definition forUpdatePrefix :: byte where "forUpdatePrefix = 102"
definition minCommitTsPrefix :: byte where "minCommitTsPrefix = 109"
definition ShortValueMaxLen :: nat where "ShortValueMaxLen = 64"

definition EncodeWriteCFValue :: "byte \<Rightarrow> u64 \<Rightarrow> bytes \<Rightarrow> bytes" where
  "EncodeWriteCFValue t startTs shortVal =
     (let data = EncodeUvarint [t] startTs
      in if shortVal \<noteq> [] then data @ [shortValuePrefix, of_nat (length shortVal)] @ shortVal else data)"

definition LockTypePut :: byte where "LockTypePut = 80"
definition LockTypeDelete :: byte where "LockTypeDelete = 68"
definition LockTypeLock :: byte where "LockTypeLock = 76"
definition LockTypePessimistic :: byte where "LockTypePessimistic = 83"

definition EncodeLockCFValue :: "Lock \<Rightarrow> (bytes \<times> bytes) option" where
  "EncodeLockCFValue lock =
     map_option (\<lambda>data. let
         data = EncodeUvarint (EncodeCompactBytes data (Primary lock)) (StartTS lock);
         data = EncodeUvarint data (ucast (TTL lock));
         (data, longValue) =
           (if length (Value lock) \<le> ShortValueMaxLen
            then (if Value lock \<noteq> [] then data @ [shortValuePrefix, of_nat (length (Value lock))] @ Value lock
                  else data, [])
            else (data, Value lock));
         data = (if ForUpdateTS lock > 0 then EncodeUint (data @ [forUpdatePrefix]) (ForUpdateTS lock) else data);
         data = (if MinCommitTS lock > 0 then EncodeUint (data @ [minCommitTsPrefix]) (MinCommitTS lock) else data)
       in (data, longValue))
     (if Op lock = op_code Op_Put then Some [LockTypePut]
      else if Op lock = op_code Op_Del then Some [LockTypeDelete]
      else if Op lock = op_code Op_Lock then Some [LockTypeLock]
      else if Op lock = op_code Op_PessimisticLock then Some [LockTypePessimistic]
      else None)"

definition zero_lock :: Lock where
  "zero_lock =
     \<lparr>StartTS = 0, ForUpdateTS = 0, MinCommitTS = 0, TTL = 0, Op = 0, HasOldVer = False, PrimaryLen = 0,
      UseAsyncCommit = False, SecondaryNum = 0, Primary = [], Value = [], Secondaries = []\<rparr>"

definition parse_short_value :: "bytes \<Rightarrow> Lock \<Rightarrow> cf_error + bytes \<times> Lock" where
  "parse_short_value data lock =
     (if data ! 0 = shortValuePrefix
      then if length data < 2 \<or> length data < 2 + unat (data ! 1) then Inl CF_Panic
           else let shortValLen = unat (data ! 1); data = drop 2 data
             in Inr (drop shortValLen data, lock\<lparr>Value := take shortValLen data\<rparr>)
      else Inr (data, lock))"

definition parse_lock_tail :: "bytes \<Rightarrow> Lock \<Rightarrow> cf_error + Lock" where
  "parse_lock_tail data lock =
     (if data = [] then Inr lock
      else res_bind (parse_short_value data lock) (\<lambda>(data, lock).
      res_bind (if data \<noteq> [] \<and> data ! 0 = forUpdatePrefix
                then res_bind (cf (DecodeUint (drop 1 data))) (\<lambda>(data, ts). Inr (data, lock\<lparr>ForUpdateTS := ts\<rparr>))
                else Inr (data, lock)) (\<lambda>(data, lock).
      if data \<noteq> [] \<and> data ! 0 = minCommitTsPrefix
      then res_bind (cf (DecodeUint (drop 1 data))) (\<lambda>(data, ts). Inr (lock\<lparr>MinCommitTS := ts\<rparr>))
      else Inr lock)))"

definition parse_lock_op :: "byte \<Rightarrow> cf_error + byte" where
  "parse_lock_op tp =
     (if tp = LockTypePut then Inr (op_code Op_Put)
      else if tp = LockTypeDelete then Inr (op_code Op_Del)
      else if tp = LockTypeLock then Inr (op_code Op_Lock)
      else if tp = LockTypePessimistic then Inr (op_code Op_PessimisticLock)
      else Inl InvalidLockCFValue)"

definition ParseLockCFValue :: "bytes \<Rightarrow> cf_error + Lock" where
  "ParseLockCFValue data =
     (if data = [] then Inl InvalidLockCFValue
      else res_bind (parse_lock_op (data ! 0)) (\<lambda>opc.
      res_bind (cf (DecodeCompactBytes (drop 1 data))) (\<lambda>(data, primary).
      res_bind (cf (DecodeUvarint data)) (\<lambda>(data, startTS).
      let lock = zero_lock\<lparr>Op := opc, Primary := primary, PrimaryLen := of_nat (length primary),
                           StartTS := startTS\<rparr>
      in if data = [] then Inr lock
      else res_bind (cf (DecodeUvarint data)) (\<lambda>(data, ttl).
      parse_lock_tail data (lock\<lparr>TTL := ucast ttl\<rparr>))))))"

section \<open>Correctness\<close>

lemma length_hdr_image [simp]: "length (hdr_image l) = 40"
  by (simp add: hdr_image_def)

lemma DecodeLock_loop_marshal:
  "list_all (\<lambda>s. length s < 2 ^ 16) ss \<Longrightarrow>
   DecodeLock_loop (length ss) (marshal_secondaries ss @ v) = Some (ss, v)"
  by (induction ss) (simp_all add: Let_def unat_of_nat)

lemma hdr_fields:
  "LittleEndian_Uint 8 (hdr_image l @ r) = StartTS l"
  "LittleEndian_Uint 8 (drop 8 (hdr_image l @ r)) = ForUpdateTS l"
  "LittleEndian_Uint 8 (drop 16 (hdr_image l @ r)) = MinCommitTS l"
  "LittleEndian_Uint 4 (drop 24 (hdr_image l @ r)) = TTL l"
  "(hdr_image l @ r) ! 28 = Op l"
  "((hdr_image l @ r) ! 29 \<noteq> 0) = HasOldVer l"
  "LittleEndian_Uint 2 (drop 30 (hdr_image l @ r)) = PrimaryLen l"
  "((hdr_image l @ r) ! 32 \<noteq> 0) = UseAsyncCommit l"
  "LittleEndian_Uint 4 (drop 36 (hdr_image l @ r)) = SecondaryNum l"
  by (simp_all add: hdr_image_def nth_append)

lemma DecodeLock_MarshalBinary: "wf_lock l \<Longrightarrow> DecodeLock (MarshalBinary l) = Some l"
proof -
  assume wf: "wf_lock l"
  let ?rest = "Primary l @ (if SecondaryNum l > 0 then marshal_secondaries (Secondaries l) else []) @ Value l"
  have bin: "MarshalBinary l = hdr_image l @ ?rest"
    by (simp add: MarshalBinary_def)
  have secs: "DecodeLock_loop (unat (SecondaryNum l))
      ((if SecondaryNum l > 0 then marshal_secondaries (Secondaries l) else []) @ Value l)
      = Some (Secondaries l, Value l)"
    using wf DecodeLock_loop_marshal [of "Secondaries l" "Value l"]
    by (cases "SecondaryNum l = 0") (auto simp: wf_lock_def word_neq_0_conv)
  show ?thesis
    unfolding DecodeLock_def bin hdr_fields mvccLockHdrSize_def Let_def
    using wf secs by (simp add: wf_lock_def)
qed

lemma MarshalBinary_not_Nil [simp]: "MarshalBinary l \<noteq> []"
  by (auto simp: MarshalBinary_def hdr_image_def)

lemma DBUserMeta_New [simp]:
  "DBUserMeta_StartTS (NewDBUserMeta s c) = s" "DBUserMeta_CommitTS (NewDBUserMeta s c) = c"
  by (simp_all add: DBUserMeta_StartTS_def DBUserMeta_CommitTS_def NewDBUserMeta_def)

lemma EncodeExtraTxnStatusKey_Cons:
  "EncodeExtraTxnStatusKey (b # k) s = (b + 1) # k @ EncodeUintDesc [] s"
  by (simp add: EncodeExtraTxnStatusKey_def EncodeUintDesc_def)

lemma EncodeExtraTxnStatusKey_inject:
  "\<lbrakk>k \<noteq> []; k' \<noteq> []\<rbrakk> \<Longrightarrow>
   EncodeExtraTxnStatusKey k s = EncodeExtraTxnStatusKey k' s' \<longleftrightarrow> k = k' \<and> s = s'"
proof -
  have len: "length (EncodeUintDesc [] t) = 8" for t
    by (simp add: EncodeUintDesc_def)
  have "EncodeUintDesc [] s = EncodeUintDesc [] s' \<Longrightarrow> s = s'"
    by (metis EncodeUintDesc_def append_Nil PutUint64_less_iff NOT_less_NOT_word neq_iff)
  then show "\<lbrakk>k \<noteq> []; k' \<noteq> []\<rbrakk> \<Longrightarrow> ?thesis"
    by (cases k; cases k') (auto simp: EncodeExtraTxnStatusKey_Cons len)
qed

lemma cf_simps [simp]: "cf (Inl e) = Inl (CF_Codec e)" "cf (Inr a) = Inr a"
  by (simp_all add: cf_def)

lemma EncodeUvarint_append: "EncodeUvarint b v = b @ EncodeUvarint [] v"
  by (simp add: EncodeUvarint_def)

lemma EncodeCompactBytes_append: "EncodeCompactBytes b d = b @ EncodeCompactBytes [] d"
  by (simp add: EncodeCompactBytes_def EncodeVarint_def)

text \<open>What \<^verbatim>\<open>ParseLockCFValue\<close> reads behind the TTL.\<close>

definition lock_tail :: "Lock \<Rightarrow> bytes" where
  "lock_tail l =
     (if Value l \<noteq> [] \<and> length (Value l) \<le> ShortValueMaxLen
      then [shortValuePrefix, of_nat (length (Value l))] @ Value l else []) @
     (if ForUpdateTS l > 0 then forUpdatePrefix # EncodeUint [] (ForUpdateTS l) else []) @
     (if MinCommitTS l > 0 then minCommitTsPrefix # EncodeUint [] (MinCommitTS l) else [])"

definition op_type :: "pb_op \<Rightarrow> byte" where
  "op_type tp = (case tp of Op_Put \<Rightarrow> LockTypePut | Op_Del \<Rightarrow> LockTypeDelete | Op_Lock \<Rightarrow> LockTypeLock
                 | _ \<Rightarrow> LockTypePessimistic)"

lemma EncodeLockCFValue_eq:
  assumes "Op l = op_code tp" "tp \<in> {Op_Put, Op_Del, Op_Lock, Op_PessimisticLock}"
  shows "EncodeLockCFValue l = Some
     (op_type tp # EncodeCompactBytes [] (Primary l) @ EncodeUvarint [] (StartTS l) @
        EncodeUvarint [] (ucast (TTL l)) @ lock_tail l,
      if length (Value l) \<le> ShortValueMaxLen then [] else Value l)"
  using assms(2)
  by (auto simp: EncodeLockCFValue_def assms(1) op_type_def lock_tail_def Let_def
      EncodeUint_def EncodeUvarint_def EncodeCompactBytes_def EncodeVarint_def)

lemma parse_lock_tail:
  assumes "Value lk = []" "ForUpdateTS lk = 0" "MinCommitTS lk = 0"
  shows "parse_lock_tail (lock_tail l) lk = Inr (lk\<lparr>
     Value := (if length (Value l) \<le> ShortValueMaxLen then Value l else []),
     ForUpdateTS := ForUpdateTS l, MinCommitTS := MinCommitTS l\<rparr>)"
proof -
  have small: "unat (of_nat n :: byte) = n" if "n \<le> ShortValueMaxLen" for n
    using that by (simp add: unat_of_nat ShortValueMaxLen_def)
  have zero: "lk\<lparr>Value := [], ForUpdateTS := x, MinCommitTS := y\<rparr> = lk\<lparr>ForUpdateTS := x, MinCommitTS := y\<rparr>"
    "lk\<lparr>ForUpdateTS := 0, MinCommitTS := y\<rparr> = lk\<lparr>MinCommitTS := y\<rparr>"
    "lk\<lparr>ForUpdateTS := x, MinCommitTS := 0\<rparr> = lk\<lparr>ForUpdateTS := x\<rparr>"
    "lk\<lparr>Value := v, ForUpdateTS := 0, MinCommitTS := y\<rparr> = lk\<lparr>Value := v, MinCommitTS := y\<rparr>"
    "lk\<lparr>Value := v, ForUpdateTS := x, MinCommitTS := 0\<rparr> = lk\<lparr>Value := v, ForUpdateTS := x\<rparr>"
    "lk\<lparr>Value := v, MinCommitTS := 0\<rparr> = lk\<lparr>Value := v\<rparr>" "lk\<lparr>MinCommitTS := 0\<rparr> = lk"
    for v x y using assms by (cases lk; simp)+
  consider "Value l = []" | "Value l \<noteq> []" "length (Value l) \<le> ShortValueMaxLen"
    | "\<not> length (Value l) \<le> ShortValueMaxLen" by blast
  then show ?thesis
    by cases (cases "ForUpdateTS l = 0"; cases "MinCommitTS l = 0";
        auto simp: parse_lock_tail_def parse_short_value_def lock_tail_def Let_def small zero word_neq_0_conv
          shortValuePrefix_def forUpdatePrefix_def minCommitTsPrefix_def
          codec_uint.dec_enc codec_uint.dec_enc [where rest = "[]", simplified])+
qed

lemma EncodeUvarint_not_Nil [simp]: "EncodeUvarint [] v \<noteq> []"
  using DecodeUvarint_Encode [of v "[]"] by (auto simp: DecodeUvarint_def Uvarint_def)

lemma ParseLockCFValue_Encode:
  assumes "Op l = op_code tp" "tp \<in> {Op_Put, Op_Del, Op_Lock, Op_PessimisticLock}"
    and "EncodeLockCFValue l = Some (data, longValue)" "length (Primary l) < 2 ^ 63"
  shows "ParseLockCFValue data = Inr (zero_lock\<lparr>Op := Op l, Primary := Primary l,
     PrimaryLen := of_nat (length (Primary l)), StartTS := StartTS l, TTL := TTL l,
     Value := (if length (Value l) \<le> ShortValueMaxLen then Value l else []),
     ForUpdateTS := ForUpdateTS l, MinCommitTS := MinCommitTS l\<rparr>)"
proof -
  let ?u = "EncodeUvarint [] (StartTS l) @ EncodeUvarint [] (ucast (TTL l)) @ lock_tail l"
  have data: "data = op_type tp # EncodeCompactBytes [] (Primary l) @ ?u"
    using assms(3) EncodeLockCFValue_eq [OF assms(1,2)] by simp
  have op: "parse_lock_op (op_type tp) = Inr (op_code tp)"
    using assms(2) by (auto simp: parse_lock_op_def op_type_def LockTypePut_def LockTypeDelete_def LockTypeLock_def LockTypePessimistic_def)
  have ttl: "ucast (ucast (TTL l) :: u64) = TTL l"
    by (rule bit_word_eqI) (simp add: bit_simps)
  show ?thesis
    unfolding data ParseLockCFValue_def
    by (simp add: op DecodeCompactBytes_Encode [OF assms(4)] DecodeUvarint_Encode parse_lock_tail ttl assms(1) zero_lock_def)
qed

lemma ParseWriteCFValue_Encode:
  assumes "t \<in> {WriteTypePut, WriteTypeDelete, WriteTypeLock, WriteTypeRollback}"
  shows "ParseWriteCFValue (EncodeWriteCFValue t ts v) = Inr \<lparr>wv_Type = t, wv_StartTS = ts,
     wv_ShortVal = (if v = [] then [] else [shortValuePrefix, of_nat (length v)] @ v)\<rparr>"
  using assms DecodeUvarint_Encode [of ts "[]"] DecodeUvarint_Encode [of ts "shortValuePrefix # of_nat (length v) # v"]
  by (auto simp: ParseWriteCFValue_def EncodeWriteCFValue_def Let_def EncodeUvarint_append [of "[t]"])

lemma DecodeExtraTxnStatusKey_Encode:
  "DecodeExtraTxnStatusKey (EncodeExtraTxnStatusKey (b # k) s) = (if k = [] then [] else b # k)"
  by (simp add: DecodeExtraTxnStatusKey_def EncodeExtraTxnStatusKey_Cons Let_def)

lemma DecodeKeyTS_Encode: "DecodeKeyTS (EncodeExtraTxnStatusKey (b # k) s) = Some s"
  using codec_uint_desc.dec_enc [of s "[]"]
  by (simp add: DecodeKeyTS_def EncodeExtraTxnStatusKey_Cons)

lemma DecodeLock_short: "length data < mvccLockHdrSize \<Longrightarrow> DecodeLock data = None"
  by (simp add: DecodeLock_def)

lemma EncodeExtraTxnStatusKey_less:
  "EncodeExtraTxnStatusKey (b # k) s < EncodeExtraTxnStatusKey (b # k) s' \<longleftrightarrow> s' < s"
  using codec_uint_desc.enc_less_iff [of s "[]" s' "[]"] by (simp add: EncodeExtraTxnStatusKey_Cons)

section \<open>Properties\<close>

text \<open>
  C27: decoding a marshalled lock gives the lock back, whatever its times, flags,
  primary key, secondaries and value, provided the two counts of its header are right and
  no secondary is longer than 65535 bytes; the decoder panics on fewer than 40 bytes.
\<close>

theorem lock_roundtrip:
  "(wf_lock l \<longrightarrow> DecodeLock (MarshalBinary l) = Some l) \<and>
   (length data < mvccLockHdrSize \<longrightarrow> DecodeLock data = None)"
  using DecodeLock_MarshalBinary [of l] DecodeLock_short [of data] by blast

definition sample_lock :: Lock where
  "sample_lock = zero_lock\<lparr>StartTS := 7, TTL := 3000, PrimaryLen := 2, Primary := [116, 1],
     SecondaryNum := 1, Secondaries := [[116, 2, 3]], UseAsyncCommit := True, Value := [9]\<rparr>"

theorem lock_roundtrip_witness:
  "DecodeLock (MarshalBinary sample_lock) = Some sample_lock \<and> DecodeLock [1, 2] = None"
  using lock_roundtrip [of sample_lock "[1, 2]"]
  by (simp add: wf_lock_def sample_lock_def zero_lock_def mvccLockHdrSize_def)

text \<open>
  C28: the key of a transaction status determines the key and the start timestamp it
  is for; its timestamp is read back by \<^verbatim>\<open>DecodeKeyTS\<close>, its key by
  \<^verbatim>\<open>DecodeExtraTxnStatusKey\<close> (which loses a key of one byte), and the statuses of one key are
  ordered from the newest to the oldest. The user meta of a version gives back both of its times.
\<close>

theorem status_keys:
  "(EncodeExtraTxnStatusKey (b # k) s = EncodeExtraTxnStatusKey (b' # k') s' \<longleftrightarrow> b = b' \<and> k = k' \<and> s = s') \<and>
   (EncodeExtraTxnStatusKey (b # k) s < EncodeExtraTxnStatusKey (b # k) s' \<longleftrightarrow> s' < s) \<and>
   DecodeKeyTS (EncodeExtraTxnStatusKey (b # k) s) = Some s \<and>
   DecodeExtraTxnStatusKey (EncodeExtraTxnStatusKey (b # k) s) = (if k = [] then [] else b # k) \<and>
   DBUserMeta_StartTS (NewDBUserMeta s c) = s \<and> DBUserMeta_CommitTS (NewDBUserMeta s c) = c"
  by (simp add: EncodeExtraTxnStatusKey_inject DecodeKeyTS_Encode DecodeExtraTxnStatusKey_Encode
      EncodeExtraTxnStatusKey_less)



end
