(* ===== verification/Mvcc_Db.thy ===== *)
theory Mvcc_Db
  imports Mvcc_Lock Kv_Key
begin

text \<open>
  What the transactional store is built on: its errors (\<^verbatim>\<open>kverrors\<close>), the interface to
  badger, the embedded multi-version database, the interface to the lock store, the reader
  (\<^verbatim>\<open>dbreader/db_reader.go\<close>) and the writer (\<^verbatim>\<open>write.go\<close>).

  Badger is a parameter: a record of the operations the sources call. A read transaction is
  the database value at the time it was opened together with the read timestamp, which the
  operations take as an argument; an iterator positioned by \<^verbatim>\<open>Seek\<close> is the list of the items it
  will visit. The lock store is the in-memory skip list of \<^verbatim>\<open>lockstore\<close>, used through its
  operations with a position hint.
\<close>

section \<open>Errors\<close>

datatype conflict_reason =
  WC_Unknown | WC_Optimistic | WC_PessimisticRetry | WC_LazyUniquenessCheck | WC_RcCheckTs

datatype assertion = Assertion_None | Assertion_Exist | Assertion_NotExist

datatype kv_error =
    ErrLocked bytes Lock
  | ErrLockNotFound
  | ErrAlreadyRollback
  | ErrReplaced
  | ErrInvalidOp pb_op
  | ErrAlreadyCommitted u64
  | ErrKeyAlreadyExists bytes
  | ErrConflict u64 u64 u64 bytes conflict_reason
  | ErrCommitExpire u64 u64 u64 bytes
  | ErrTxnNotFound u64 bytes
  | ErrAssertionFailed u64 bytes assertion u64 u64
  | ErrPrimaryMismatch bytes Lock
  | ErrMessage string
  | ErrBadger string
  | Panic

definition BuildLockErr :: "bytes \<Rightarrow> Lock \<Rightarrow> kv_error" where
  "BuildLockErr key lock = ErrLocked key lock"

section \<open>Interfaces\<close>

record item =
  item_Key :: bytes
  item_Version :: u64
  item_val :: bytes
  item_UserMeta :: bytes

definition IsEmpty :: "item \<Rightarrow> bool" where
  "IsEmpty it \<longleftrightarrow> item_val it = []"

record entry =
  ent_Key :: bytes
  ent_Version :: u64
  ent_Value :: bytes
  ent_UserMeta :: bytes

record iter_opts =
  it_Reverse :: bool
  it_AllVersions :: bool
  it_StartKey :: bytes
  it_EndKey :: bytes

text \<open>
  An entry without user meta is a deletion. \<^verbatim>\<open>bg_get\<close> answers \<open>None\<close> for
  \<^verbatim>\<open>ErrKeyNotFound\<close>; \<open>bg_update\<close> runs one read-write transaction.
\<close>

record 'db badger_ops =
  bg_newReadTS :: u64
  bg_get :: "'db \<Rightarrow> u64 \<Rightarrow> bytes \<Rightarrow> kv_error + item option"
  bg_multiGet :: "'db \<Rightarrow> u64 \<Rightarrow> bytes list \<Rightarrow> kv_error + item option list"
  bg_iter :: "'db \<Rightarrow> u64 \<Rightarrow> iter_opts \<Rightarrow> bytes \<Rightarrow> item list"
  bg_value :: "item \<Rightarrow> kv_error + bytes"
  bg_update :: "entry list \<Rightarrow> 'db \<Rightarrow> kv_error option \<times> 'db"

record ('ls, 'h) lock_ops =
  ls_Get :: "'ls \<Rightarrow> bytes \<Rightarrow> bytes"
  ls_PutWithHint :: "bytes \<Rightarrow> bytes \<Rightarrow> 'ls \<times> 'h \<Rightarrow> 'ls \<times> 'h"
  ls_DeleteWithHint :: "bytes \<Rightarrow> 'ls \<times> 'h \<Rightarrow> 'ls \<times> 'h"
  ls_newHint :: 'h
  ls_iterate :: "'ls \<Rightarrow> bytes \<Rightarrow> (bytes \<times> bytes) list"

section \<open>The reader\<close>

record DBReader =
  rd_StartKey :: bytes
  rd_EndKey :: bytes
  rd_RcCheckTS :: bool

definition exceedEndKey :: "bytes \<Rightarrow> bytes \<Rightarrow> bool" where
  "exceedEndKey current endKey = (if endKey = [] then False else bytes_Compare current endKey \<ge> 0)"

definition NewIterator :: "bool \<Rightarrow> bool \<Rightarrow> DBReader \<Rightarrow> iter_opts" where
  "NewIterator reverse allVersions r =
     \<lparr>it_Reverse = reverse, it_AllVersions = allVersions, it_StartKey = rd_StartKey r, it_EndKey = rd_EndKey r\<rparr>"

definition GetExtraIter :: "DBReader \<Rightarrow> iter_opts" where
  "GetExtraIter r =
     \<lparr>it_Reverse = False, it_AllVersions = False,
      it_StartKey = (rd_StartKey r)[0 := rd_StartKey r ! 0 + 1], it_EndKey = (rd_EndKey r)[0 := rd_EndKey r ! 0 + 1]\<rparr>"

definition readTS_of :: "DBReader \<Rightarrow> u64 \<Rightarrow> u64" where
  "readTS_of r startTS = (if rd_RcCheckTS r then - 1 else startTS)"

definition CheckWriteItemForRcCheckTSRead :: "DBReader \<Rightarrow> u64 \<Rightarrow> item \<Rightarrow> kv_error option" where
  "CheckWriteItemForRcCheckTSRead r readTS it =
     (if \<not> rd_RcCheckTS r then None
      else if DBUserMeta_CommitTS (item_UserMeta it) > readTS
      then Some (ErrConflict readTS (DBUserMeta_StartTS (item_UserMeta it))
                   (DBUserMeta_CommitTS (item_UserMeta it)) [] WC_RcCheckTs)
      else None)"

definition DBReader_Get :: "'db badger_ops \<Rightarrow> DBReader \<Rightarrow> 'db \<Rightarrow> bytes \<Rightarrow> u64 \<Rightarrow> kv_error + bytes option" where
  "DBReader_Get bg r db key startTS =
     res_bind (bg_get bg db (readTS_of r startTS) key) (\<lambda>x. case x of
         None \<Rightarrow> Inr None
       | Some it \<Rightarrow>
           (case CheckWriteItemForRcCheckTSRead r startTS it of
              Some e \<Rightarrow> Inl e
            | None \<Rightarrow> res_bind (bg_value bg it) (\<lambda>v. Inr (Some v))))"

text \<open>The calls \<^verbatim>\<open>BatchGet\<close> makes of its callback, in order: key, value and error.\<close>

fun BatchGet_loop ::
  "'db badger_ops \<Rightarrow> DBReader \<Rightarrow> u64 \<Rightarrow> (bytes \<times> item option) list \<Rightarrow> kv_error option \<Rightarrow> (bytes \<times> bytes \<times> kv_error option) list" where
  "BatchGet_loop bg r startTS [] err = []"
| "BatchGet_loop bg r startTS ((key, None) # xs) err = (key, [], err) # BatchGet_loop bg r startTS xs err"
| "BatchGet_loop bg r startTS ((key, Some it) # xs) err =
     (let (val, err) = (case bg_value bg it of
                          Inl e \<Rightarrow> ([], Some e)
                        | Inr v \<Rightarrow> (v, CheckWriteItemForRcCheckTSRead r startTS it))
      in (key, val, err) # BatchGet_loop bg r startTS xs err)"

definition DBReader_BatchGet ::
  "'db badger_ops \<Rightarrow> DBReader \<Rightarrow> 'db \<Rightarrow> bytes list \<Rightarrow> u64 \<Rightarrow> (bytes \<times> bytes \<times> kv_error option) list" where
  "DBReader_BatchGet bg r db keys startTS =
     (case bg_multiGet bg db (readTS_of r startTS) keys of
        Inl e \<Rightarrow> map (\<lambda>key. (key, [], Some e)) keys
      | Inr items \<Rightarrow> BatchGet_loop bg r startTS (zip keys items) None)"

text \<open>
  A scan hands the non-empty items of its range to a processor until it has handed over
  \<open>limit\<close> of them. The processors of the store do not fail and do not skip values, so the
  scan is the list of what was processed.
\<close>

fun Scan_loop ::
  "'db badger_ops \<Rightarrow> DBReader \<Rightarrow> u64 \<Rightarrow> bytes \<Rightarrow> int \<Rightarrow> int \<Rightarrow> item list \<Rightarrow> kv_error + (bytes \<times> bytes) list" where
  "Scan_loop bg r startTS endKey limit cnt [] = Inr []"
| "Scan_loop bg r startTS endKey limit cnt (it # its) =
     (if exceedEndKey (item_Key it) endKey then Inr []
      else case CheckWriteItemForRcCheckTSRead r startTS it of
        Some e \<Rightarrow> Inl e
      | None \<Rightarrow>
          if IsEmpty it then Scan_loop bg r startTS endKey limit cnt its
          else res_bind (bg_value bg it) (\<lambda>val.
            if cnt + 1 \<ge> limit then Inr [(item_Key it, val)]
            else res_bind (Scan_loop bg r startTS endKey limit (cnt + 1) its)
                   (\<lambda>xs. Inr ((item_Key it, val) # xs))))"

definition DBReader_Scan ::
  "'db badger_ops \<Rightarrow> DBReader \<Rightarrow> 'db \<Rightarrow> bytes \<Rightarrow> bytes \<Rightarrow> int \<Rightarrow> u64 \<Rightarrow> kv_error + (bytes \<times> bytes) list" where
  "DBReader_Scan bg r db startKey endKey limit startTS =
     Scan_loop bg r startTS endKey limit 0
       (bg_iter bg db (readTS_of r startTS) (NewIterator False False r) startKey)"

fun ReverseScan_loop ::
  "'db badger_ops \<Rightarrow> DBReader \<Rightarrow> u64 \<Rightarrow> bytes \<Rightarrow> bytes \<Rightarrow> int \<Rightarrow> int \<Rightarrow> item list \<Rightarrow> kv_error + (bytes \<times> bytes) list" where
  "ReverseScan_loop bg r startTS startKey endKey limit cnt [] = Inr []"
| "ReverseScan_loop bg r startTS startKey endKey limit cnt (it # its) =
     (if bytes_Compare (item_Key it) startKey < 0 then Inr []
      else if cnt = 0 \<and> item_Key it = endKey
      then ReverseScan_loop bg r startTS startKey endKey limit cnt its
      else case CheckWriteItemForRcCheckTSRead r startTS it of
        Some e \<Rightarrow> Inl e
      | None \<Rightarrow>
          if IsEmpty it then ReverseScan_loop bg r startTS startKey endKey limit cnt its
          else res_bind (bg_value bg it) (\<lambda>val.
            if cnt + 1 \<ge> limit then Inr [(item_Key it, val)]
            else res_bind (ReverseScan_loop bg r startTS startKey endKey limit (cnt + 1) its)
                   (\<lambda>xs. Inr ((item_Key it, val) # xs))))"

definition DBReader_ReverseScan ::
  "'db badger_ops \<Rightarrow> DBReader \<Rightarrow> 'db \<Rightarrow> bytes \<Rightarrow> bytes \<Rightarrow> int \<Rightarrow> u64 \<Rightarrow> kv_error + (bytes \<times> bytes) list" where
  "DBReader_ReverseScan bg r db startKey endKey limit startTS =
     ReverseScan_loop bg r startTS startKey endKey limit 0
       (bg_iter bg db (readTS_of r startTS) (NewIterator True False r) endKey)"

fun GetKeyByStartTs_loop :: "bytes \<Rightarrow> u64 \<Rightarrow> item list \<Rightarrow> bytes option" where
  "GetKeyByStartTs_loop endKey startTs [] = None"
| "GetKeyByStartTs_loop endKey startTs (it # its) =
     (if endKey \<noteq> [] \<and> bytes_Compare (item_Key it) endKey \<ge> 0 then None
      else if DBUserMeta_StartTS (item_UserMeta it) = startTs then Some (item_Key it)
      else GetKeyByStartTs_loop endKey startTs its)"

definition GetKeyByStartTs :: "'db badger_ops \<Rightarrow> DBReader \<Rightarrow> 'db \<Rightarrow> bytes \<Rightarrow> bytes \<Rightarrow> u64 \<Rightarrow> bytes option" where
  "GetKeyByStartTs bg r db startKey endKey startTs =
     GetKeyByStartTs_loop endKey startTs (bg_iter bg db (bg_newReadTS bg) (NewIterator False True r) startKey)"

record MvccWrite =
  mw_Type :: pb_op
  mw_StartTs :: u64
  mw_CommitTs :: u64
  mw_ShortValue :: bytes

fun GetMvccInfoByKey_loop :: "'db badger_ops \<Rightarrow> bytes \<Rightarrow> item list \<Rightarrow> kv_error + MvccWrite list" where
  "GetMvccInfoByKey_loop bg key [] = Inr []"
| "GetMvccInfoByKey_loop bg key (it # its) =
     (if item_Key it \<noteq> key then Inr []
      else res_bind (bg_value bg it) (\<lambda>val.
        res_bind (GetMvccInfoByKey_loop bg key its) (\<lambda>ws.
          Inr (\<lparr>mw_Type = (if val = [] then Op_Del else Op_Put),
                mw_StartTs = DBUserMeta_StartTS (item_UserMeta it),
                mw_CommitTs = DBUserMeta_CommitTS (item_UserMeta it), mw_ShortValue = val\<rparr> # ws))))"

definition GetMvccInfoByKey :: "'db badger_ops \<Rightarrow> DBReader \<Rightarrow> 'db \<Rightarrow> bytes \<Rightarrow> kv_error + MvccWrite list" where
  "GetMvccInfoByKey bg r db key =
     GetMvccInfoByKey_loop bg key (bg_iter bg db (bg_newReadTS bg) (NewIterator False True r) key)"

section \<open>The writer\<close>

definition LockUserMetaNone :: bytes where "LockUserMetaNone = [0]"
definition LockUserMetaDelete :: bytes where "LockUserMetaDelete = [2]"

record writeBatch =
  wb_startTS :: u64
  wb_commitTS :: u64
  dbBatch :: "entry list"
  lockBatch :: "entry list"

definition writeDBBatch_set :: "bytes \<Rightarrow> u64 \<Rightarrow> bytes \<Rightarrow> bytes \<Rightarrow> writeBatch \<Rightarrow> writeBatch" where
  "writeDBBatch_set key version val userMeta wb =
     wb\<lparr>dbBatch := dbBatch wb @ [\<lparr>ent_Key = key, ent_Version = version, ent_Value = val, ent_UserMeta = userMeta\<rparr>]\<rparr>"

definition writeLockBatch_set :: "bytes \<Rightarrow> bytes \<Rightarrow> writeBatch \<Rightarrow> writeBatch" where
  "writeLockBatch_set key val wb =
     wb\<lparr>lockBatch := lockBatch wb @
       [\<lparr>ent_Key = key, ent_Version = 0, ent_Value = val, ent_UserMeta = LockUserMetaNone\<rparr>]\<rparr>"

definition writeLockBatch_delete :: "bytes \<Rightarrow> writeBatch \<Rightarrow> writeBatch" where
  "writeLockBatch_delete key wb =
     wb\<lparr>lockBatch := lockBatch wb @
       [\<lparr>ent_Key = key, ent_Version = 0, ent_Value = [], ent_UserMeta = LockUserMetaDelete\<rparr>]\<rparr>"

definition wb_Prewrite :: "bytes \<Rightarrow> Lock \<Rightarrow> writeBatch \<Rightarrow> writeBatch" where
  "wb_Prewrite key lock = writeLockBatch_set key (MarshalBinary lock)"

definition wb_Commit :: "bytes \<Rightarrow> Lock \<Rightarrow> writeBatch \<Rightarrow> writeBatch" where
  "wb_Commit key lock wb =
     (let userMeta = NewDBUserMeta (wb_startTS wb) (wb_commitTS wb)
      in writeLockBatch_delete key
        (if Op lock = op_code Op_PessimisticLock then wb
         else if Op lock \<noteq> op_code Op_Lock then writeDBBatch_set key (wb_commitTS wb) (Value lock) userMeta wb
         else if key = Primary lock
         then writeDBBatch_set (EncodeExtraTxnStatusKey key (wb_startTS wb)) (wb_startTS wb) [] userMeta wb
         else wb))"

definition wb_Rollback :: "bytes \<Rightarrow> bool \<Rightarrow> writeBatch \<Rightarrow> writeBatch" where
  "wb_Rollback key deleteLock wb =
     (let wb' = writeDBBatch_set (EncodeExtraTxnStatusKey key (wb_startTS wb)) (wb_startTS wb) []
                  (NewDBUserMeta (wb_startTS wb) 0) wb
      in if deleteLock then writeLockBatch_delete key wb' else wb')"

definition wb_PessimisticLock :: "bytes \<Rightarrow> Lock \<Rightarrow> writeBatch \<Rightarrow> writeBatch" where
  "wb_PessimisticLock key lock = writeLockBatch_set key (MarshalBinary lock)"

definition wb_PessimisticRollback :: "bytes \<Rightarrow> writeBatch \<Rightarrow> writeBatch" where
  "wb_PessimisticRollback key = writeLockBatch_delete key"

text \<open>
  The database worker writes the entries of the batches it has taken from its channel in one
  transaction; the lock worker applies them one by one with a hint of its own.
\<close>

definition updateBatchGroup :: "'db badger_ops \<Rightarrow> entry list list \<Rightarrow> 'db \<Rightarrow> kv_error option \<times> 'db" where
  "updateBatchGroup bg batchGroup db = bg_update bg (concat batchGroup) db"

definition apply_lock_entry :: "('ls, 'h) lock_ops \<Rightarrow> entry \<Rightarrow> 'ls \<times> 'h \<Rightarrow> 'ls \<times> 'h" where
  "apply_lock_entry ls e =
     (if ent_UserMeta e ! 0 = 2 then ls_DeleteWithHint ls (ent_Key e)
      else ls_PutWithHint ls (ent_Key e) (ent_Value e))"

definition writeLockWorker_run :: "('ls, 'h) lock_ops \<Rightarrow> entry list list \<Rightarrow> 'ls \<Rightarrow> 'ls" where
  "writeLockWorker_run ls batches s = fst (fold (apply_lock_entry ls) (concat batches) (s, ls_newHint ls))"

definition dbWriter_Write ::
  "'db badger_ops \<Rightarrow> ('ls, 'h) lock_ops \<Rightarrow> writeBatch \<Rightarrow> 'db \<times> 'ls \<Rightarrow> kv_error option \<times> 'db \<times> 'ls" where
  "dbWriter_Write bg ls wb = (\<lambda>(db, locks).
     let (err, db') = (if dbBatch wb \<noteq> [] then updateBatchGroup bg [dbBatch wb] db else (None, db))
     in case err of
          Some e \<Rightarrow> (Some e, db', locks)
        | None \<Rightarrow> (None, db', if lockBatch wb \<noteq> [] then writeLockWorker_run ls [lockBatch wb] locks else locks))"

definition writer_updateLatestTS :: "u64 \<Rightarrow> u64 \<Rightarrow> u64" where
  "writer_updateLatestTS ts latestTS = (if ts \<noteq> - 1 \<and> ts > latestTS then ts else latestTS)"

definition dbWriter_NewWriteBatch :: "u64 \<Rightarrow> u64 \<Rightarrow> u64 \<Rightarrow> writeBatch \<times> u64" where
  "dbWriter_NewWriteBatch startTS commitTS latestTS =
     (\<lparr>wb_startTS = startTS, wb_commitTS = commitTS, dbBatch = [], lockBatch = []\<rparr>,
      writer_updateLatestTS (if commitTS > 0 then commitTS else startTS) latestTS)"

fun collectRangeKeys :: "bytes \<Rightarrow> item list \<Rightarrow> (bytes \<times> u64) list" where
  "collectRangeKeys endKey [] = []"
| "collectRangeKeys endKey (it # its) =
     (if exceedEndKey (item_Key it) endKey then []
      else (item_Key it, item_Version it) # collectRangeKeys endKey its)"

function deleteKeysInBatch ::
  "'db badger_ops \<Rightarrow> (bytes \<times> u64) list \<Rightarrow> nat \<Rightarrow> 'db \<Rightarrow> kv_error option \<times> 'db" where
  "deleteKeysInBatch bg keys batchSize db =
     (if keys = [] \<or> batchSize = 0 then (None, db)
      else let n = min (length keys) batchSize;
               batch = map (\<lambda>(k, v). \<lparr>ent_Key = k, ent_Version = v + 1, ent_Value = [], ent_UserMeta = []\<rparr>) (take n keys);
               (err, db') = updateBatchGroup bg [batch] db
           in case err of
                Some e \<Rightarrow> (Some e, db')
              | None \<Rightarrow> deleteKeysInBatch bg (drop n keys) batchSize db')"
  by pat_completeness auto
termination
  by (relation "measure (\<lambda>(bg, keys, batchSize, db). length keys)") (auto simp: neq_Nil_conv min_def)

definition delRangeBatchSize :: nat where "delRangeBatchSize = 4096"

definition DeleteRange :: "'db badger_ops \<Rightarrow> bytes \<Rightarrow> bytes \<Rightarrow> 'db \<Rightarrow> kv_error option \<times> 'db" where
  "DeleteRange bg startKey endKey db =
     (if endKey = [] then (Some Panic, db)
      else let r = \<lparr>rd_StartKey = startKey, rd_EndKey = endKey, rd_RcCheckTS = False\<rparr>;
               keys = collectRangeKeys endKey
                 (bg_iter bg db (bg_newReadTS bg) (NewIterator False False r) startKey)
           in deleteKeysInBatch bg keys delRangeBatchSize db)"

end
