(* ===== verification/Lockwaiter.thy ===== *)
theory Lockwaiter
  imports Prelude "HOL-Library.Multiset"
begin

text \<open>
  The queues of transactions that wait for a pessimistic lock
  (\<^verbatim>\<open>store/mockstore/unistore/util/lockwaiter\<close>). A waiter is shared between its queue and the
  request that waits on it, so waiters live in a heap of the manager and queues hold their
  addresses. Channels are lists of the messages not yet received; a send in a \<^verbatim>\<open>select\<close> with
  a default is dropped when the channel is full. Times are in nanoseconds and every reading
  of the clock is an argument. An operation that panics or blocks for ever is \<open>None\<close>.
\<close>

section \<open>Messages\<close>

record WaitForEntry =
  wfe_Txn :: u64
  wfe_WaitForTxn :: u64
  wfe_KeyHash :: u64
  wfe_Key :: bytes
  wfe_ResourceGroupTag :: bytes

record DeadlockResponse =
  dr_Entry :: WaitForEntry
  dr_DeadlockKeyHash :: u64
  dr_WaitChain :: "WaitForEntry list"

record WaitResult =
  wr_DeadlockResp :: "DeadlockResponse option"
  wr_WakeupSleepTime :: int
  wr_CommitTS :: u64

definition WaitTimeout :: int where "WaitTimeout = - 1"
definition WakeUpThisWaiter :: int where "WakeUpThisWaiter = 0"
definition WakeupDelayTimeout :: int where "WakeupDelayTimeout = 1"

definition LockNoWait :: i64 where "LockNoWait = - 1"

section \<open>State\<close>

type_synonym waiter_id = nat

record Waiter =
  deadlineTime :: int
  timer :: int
  ch :: "WaitResult list"
  w_wakeUpDelayDuration :: i64
  w_startTS :: u64
  LockTS :: u64
  KeyHash :: u64
  CommitTs :: u64
  wakeupDelayed :: bool

record Manager =
  waitingQueues :: "u64 \<rightharpoonup> waiter_id list"
  wakeUpDelayDuration :: i64
  waiters :: "waiter_id \<rightharpoonup> Waiter"
  next_waiter :: waiter_id

definition NewManager :: "i64 \<Rightarrow> Manager" where
  "NewManager delay =
     \<lparr>waitingQueues = Map.empty, wakeUpDelayDuration = delay, waiters = Map.empty, next_waiter = 0\<rparr>"

definition ch_capacity :: nat where "ch_capacity = 32"

definition try_send :: "WaitResult \<Rightarrow> Waiter \<Rightarrow> Waiter" where
  "try_send r w = (if length (ch w) < ch_capacity then w\<lparr>ch := ch w @ [r]\<rparr> else w)"

section \<open>Queues\<close>

definition startTS_of :: "(waiter_id \<rightharpoonup> Waiter) \<Rightarrow> waiter_id \<Rightarrow> u64" where
  "startTS_of H i = (case H i of Some w \<Rightarrow> w_startTS w | None \<Rightarrow> 0)"

definition getOldestWaiter :: "(waiter_id \<rightharpoonup> Waiter) \<Rightarrow> waiter_id list \<Rightarrow> (waiter_id \<times> waiter_id list) option" where
  "getOldestWaiter H q =
     (case sort_key (startTS_of H) q of
        [] \<Rightarrow> None
      | oldestWaiter # remainWaiter \<Rightarrow> Some (oldestWaiter, remainWaiter))"

primrec removeWaiter :: "waiter_id \<Rightarrow> waiter_id list \<Rightarrow> waiter_id list" where
  "removeWaiter w [] = []"
| "removeWaiter w (i # q) = (if i = w then q else i # removeWaiter w q)"

definition set_queue :: "u64 \<Rightarrow> waiter_id list \<Rightarrow> Manager \<Rightarrow> Manager" where
  "set_queue h q m =
     m\<lparr>waitingQueues := (if q = [] then (waitingQueues m)(h := None) else (waitingQueues m)(h \<mapsto> q))\<rparr>"

section \<open>Operations\<close>

definition NewWaiter :: "int \<Rightarrow> Manager \<Rightarrow> u64 \<Rightarrow> u64 \<Rightarrow> u64 \<Rightarrow> i64 \<Rightarrow> waiter_id \<times> Manager" where
  "NewWaiter now lw startTS lockTS keyHash timeout =
     (let waiter = \<lparr>deadlineTime = now + sint timeout, timer = now + sint timeout, ch = [],
                    w_wakeUpDelayDuration = wakeUpDelayDuration lw, w_startTS = startTS, LockTS = lockTS,
                    KeyHash = keyHash, CommitTs = 0, wakeupDelayed = False\<rparr>;
          i = next_waiter lw;
          queue = (case waitingQueues lw keyHash of Some old \<Rightarrow> old @ [i] | None \<Rightarrow> [i])
      in (i, lw\<lparr>waitingQueues := (waitingQueues lw)(keyHash \<mapsto> queue),
                waiters := (waiters lw)(i \<mapsto> waiter), next_waiter := Suc i\<rparr>))"

fun WakeUp_collect :: "u64 list \<Rightarrow> Manager \<Rightarrow> (Manager \<times> waiter_id list \<times> waiter_id list) option" where
  "WakeUp_collect [] lw = Some (lw, [], [])"
| "WakeUp_collect (keyHash # keyHashes) lw =
     (case waitingQueues lw keyHash of
        None \<Rightarrow> WakeUp_collect keyHashes lw
      | Some q \<Rightarrow>
          (case getOldestWaiter (waiters lw) q of
             None \<Rightarrow> None
           | Some (waiter, remainWaiters) \<Rightarrow>
               map_option (\<lambda>(lw', ws, ds). (lw', waiter # ws, remainWaiters @ ds))
                 (WakeUp_collect keyHashes (set_queue keyHash remainWaiters lw))))"

definition send_all :: "WaitResult \<Rightarrow> waiter_id list \<Rightarrow> Manager \<Rightarrow> Manager" where
  "send_all r ws lw =
     lw\<lparr>waiters := fold (\<lambda>i H. H(i := map_option (try_send r) (H i))) ws (waiters lw)\<rparr>"

definition wake_msg :: "int \<Rightarrow> u64 \<Rightarrow> WaitResult" where
  "wake_msg t commitTS = \<lparr>wr_DeadlockResp = None, wr_WakeupSleepTime = t, wr_CommitTS = commitTS\<rparr>"

definition WakeUp :: "Manager \<Rightarrow> u64 \<Rightarrow> u64 \<Rightarrow> u64 list \<Rightarrow> Manager option" where
  "WakeUp lw txn commitTS keyHashes =
     map_option (\<lambda>(lw', ws, wakeUpDelayWaiters).
         send_all (wake_msg WakeupDelayTimeout commitTS) wakeUpDelayWaiters
           (send_all (wake_msg WakeUpThisWaiter commitTS) ws lw'))
       (WakeUp_collect keyHashes lw)"

definition DrainCh :: "Waiter \<Rightarrow> Waiter" where
  "DrainCh w = w\<lparr>ch := []\<rparr>"

definition CleanUp :: "Manager \<Rightarrow> waiter_id \<Rightarrow> Manager option" where
  "CleanUp lw i =
     (case waiters lw i of
        None \<Rightarrow> None
      | Some w \<Rightarrow>
          let lw' = (case waitingQueues lw (KeyHash w) of
                       None \<Rightarrow> lw
                     | Some q \<Rightarrow> set_queue (KeyHash w) (removeWaiter i q) lw)
          in Some (lw'\<lparr>waiters := (waiters lw')(i \<mapsto> DrainCh w)\<rparr>))"

definition waits_for :: "(waiter_id \<rightharpoonup> Waiter) \<Rightarrow> WaitForEntry \<Rightarrow> waiter_id \<Rightarrow> bool" where
  "waits_for H entry i =
     (case H i of
        None \<Rightarrow> False
      | Some w \<Rightarrow> w_startTS w = wfe_Txn entry \<and> KeyHash w = wfe_KeyHash entry)"

definition WakeUpForDeadlock :: "Manager \<Rightarrow> DeadlockResponse \<Rightarrow> Manager option" where
  "WakeUpForDeadlock lw resp =
     (let waitForKeyHash = wfe_KeyHash (dr_Entry resp)
      in case waitingQueues lw waitForKeyHash of
        None \<Rightarrow> Some lw
      | Some q \<Rightarrow>
          (case filter (waits_for (waiters lw) (dr_Entry resp)) q of
             [] \<Rightarrow> Some (set_queue waitForKeyHash q lw)
           | i # _ \<Rightarrow>
               let lw' = set_queue waitForKeyHash (removeWaiter i q) lw;
                   r = \<lparr>wr_DeadlockResp = Some resp, wr_WakeupSleepTime = 0, wr_CommitTS = 0\<rparr>
               in case waiters lw i of
                    None \<Rightarrow> None
                  | Some w \<Rightarrow>
                      if length (ch w) < ch_capacity
                      then Some (lw'\<lparr>waiters := (waiters lw)(i \<mapsto> w\<lparr>ch := ch w @ [r]\<rparr>)\<rparr>)
                      else None))"

section \<open>Waiting\<close>

text \<open>
  \<^verbatim>\<open>Wait\<close> loops over a \<^verbatim>\<open>select\<close> of the timer and the channel. An event says at which time the
  loop looks and which of the two it takes; a case that is not ready is not taken.
  \<open>None\<close> is a wait that has not ended yet.
\<close>

datatype wait_event = TimerC int | RecvCh int

fun Wait :: "wait_event list \<Rightarrow> Waiter \<Rightarrow> (WaitResult \<times> Waiter) option" where
  "Wait [] w = None"
| "Wait (TimerC now # evs) w =
     (if timer w \<le> now
      then Some (if wakeupDelayed w then wake_msg WakeupDelayTimeout (CommitTs w) else wake_msg WaitTimeout 0, w)
      else Wait evs w)"
| "Wait (RecvCh now # evs) w =
     (case ch w of
        [] \<Rightarrow> Wait evs w
      | result # rest \<Rightarrow>
          let w = w\<lparr>ch := rest\<rparr>
          in if wr_WakeupSleepTime result = WakeupDelayTimeout
             then let w = w\<lparr>CommitTs := wr_CommitTS result, wakeupDelayed := True\<rparr>;
                      delaySleepDuration = sint (w_wakeUpDelayDuration w * 1000000)
               in Wait evs (if now + delaySleepDuration < deadlineTime w \<and> now < timer w
                            then w\<lparr>timer := now + delaySleepDuration\<rparr> else w)
             else Some (result, w))"

section \<open>Well-formed managers\<close>

text \<open>
  No queue is empty (\<^verbatim>\<open>getOldestWaiter\<close> indexes its first element), none holds a waiter twice,
  and a queue holds waiters for its own key hash only.
\<close>

definition wf_mgr :: "Manager \<Rightarrow> bool" where
  "wf_mgr m \<longleftrightarrow>
     (\<forall>h q. waitingQueues m h = Some q \<longrightarrow>
        q \<noteq> [] \<and> distinct q \<and> (\<forall>i\<in>set q. \<exists>w. waiters m i = Some w \<and> KeyHash w = h)) \<and>
     (\<forall>i. next_waiter m \<le> i \<longrightarrow> waiters m i = None)"

lemma wf_mgrD:
  assumes "wf_mgr m" "waitingQueues m h = Some q"
  shows "q \<noteq> []" "distinct q" "i \<in> set q \<Longrightarrow> \<exists>w. waiters m i = Some w \<and> KeyHash w = h"
  using assms by (auto simp: wf_mgr_def)

lemma wf_mgr_hash_unique:
  "\<lbrakk>wf_mgr m; waitingQueues m h = Some q; waitingQueues m h' = Some q'; i \<in> set q; i \<in> set q'\<rbrakk> \<Longrightarrow> h = h'"
  by (metis option.inject wf_mgrD(3))

lemma wf_NewManager: "wf_mgr (NewManager d)"
  by (simp add: wf_mgr_def NewManager_def)

lemma waiters_set_queue [simp]: "waiters (set_queue h q m) = waiters m"
  by (simp add: set_queue_def)

lemma wf_set_queue:
  "\<lbrakk>wf_mgr m; waitingQueues m h = Some q; set q' \<subseteq> set q; distinct q'\<rbrakk> \<Longrightarrow> wf_mgr (set_queue h q' m)"
  by (fastforce simp: wf_mgr_def set_queue_def split: if_splits)

text \<open>Waiters may be updated as long as they stay on their key.\<close>

lemma wf_update_waiters:
  assumes "wf_mgr m" "\<And>i. map_option KeyHash (H i) = map_option KeyHash (waiters m i)"
  shows "wf_mgr (m\<lparr>waiters := H\<rparr>)"
proof -
  have "H i = None \<longleftrightarrow> waiters m i = None" for i
    using assms(2) [of i] by (cases "H i"; cases "waiters m i") auto
  moreover have "\<exists>w'. H i = Some w' \<and> KeyHash w' = h" if "waiters m i = Some w" "KeyHash w = h" for i w h
    using assms(2) [of i] that by (cases "H i") auto
  ultimately show ?thesis
    using assms(1) unfolding wf_mgr_def by simp blast
qed

lemma set_removeWaiter: "distinct q \<Longrightarrow> set (removeWaiter i q) = set q - {i} \<and> distinct (removeWaiter i q)"
  by (induction q) auto

lemma KeyHash_try_send [simp]: "KeyHash (try_send r w) = KeyHash w" "w_startTS (try_send r w) = w_startTS w"
  by (simp_all add: try_send_def)

lemma KeyHash_send_fold:
  "map_option KeyHash (fold (\<lambda>i H. H(i := map_option (try_send r) (H i))) ws H i) = map_option KeyHash (H i)"
  by (induction ws arbitrary: H) (auto simp: option.map_comp comp_def)

lemma wf_send_all: "wf_mgr m \<Longrightarrow> wf_mgr (send_all r ws m)"
  unfolding send_all_def by (rule wf_update_waiters) (simp_all add: KeyHash_send_fold)

lemma wf_NewWaiter: "wf_mgr m \<Longrightarrow> wf_mgr (snd (NewWaiter now m s l h t))"
  unfolding wf_mgr_def NewWaiter_def Let_def
  by (auto split: option.splits) fastforce+

lemma KeyHash_Wait: "Wait evs w = Some (r, w') \<Longrightarrow> KeyHash w' = KeyHash w"
  by (induction evs w arbitrary: r w' rule: Wait.induct)
    (fastforce simp: Let_def split: if_splits list.splits)+

section \<open>Waking up\<close>

definition by_age :: "Manager \<Rightarrow> u64 \<Rightarrow> waiter_id list" where
  "by_age m h = sort_key (startTS_of (waiters m)) (the (waitingQueues m h))"

definition woken_queues :: "u64 list \<Rightarrow> Manager \<Rightarrow> u64 \<rightharpoonup> waiter_id list" where
  "woken_queues hs m h =
     (if h \<in> set hs \<and> waitingQueues m h \<noteq> None
      then (if tl (by_age m h) = [] then None else Some (tl (by_age m h)))
      else waitingQueues m h)"

definition waited :: "u64 list \<Rightarrow> Manager \<Rightarrow> u64 list" where
  "waited hs m = filter (\<lambda>h. waitingQueues m h \<noteq> None) hs"

lemma WakeUp_collect_eq:
  assumes "wf_mgr m" "distinct hs"
  shows "WakeUp_collect hs m =
    Some (m\<lparr>waitingQueues := woken_queues hs m\<rparr>, map (\<lambda>h. hd (by_age m h)) (waited hs m),
          concat (map (\<lambda>h. tl (by_age m h)) (waited hs m)))"
  using assms
proof (induction hs arbitrary: m)
  case Nil
  have "woken_queues [] m = waitingQueues m" by (simp add: woken_queues_def fun_eq_iff)
  then show ?case by (simp add: waited_def)
next
  case (Cons h hs)
  show ?case
  proof (cases "waitingQueues m h")
    case None
    then have "woken_queues (h # hs) m = woken_queues hs m"
      by (auto simp: woken_queues_def fun_eq_iff)
    with None show ?thesis using Cons by (simp add: waited_def)
  next
    case (Some q)
    let ?s = "sort_key (startTS_of (waiters m)) q"
    let ?m = "set_queue h (tl ?s) m"
    have ne: "?s \<noteq> []" using wf_mgrD(1) [OF Cons.prems(1) Some] by (metis set_empty set_sort)
    have age: "by_age m h = ?s" by (simp add: by_age_def Some)
    have set_tl: "set (tl ?s) \<subseteq> set q"
      using list.set_sel(2) [OF ne] by (metis set_sort subsetI)
    have "wf_mgr ?m"
      using Cons.prems(1) Some set_tl wf_mgrD(2) [OF Cons.prems(1) Some]
      by (intro wf_set_queue) (simp_all add: distinct_tl)
    then have IH: "WakeUp_collect hs ?m =
      Some (?m\<lparr>waitingQueues := woken_queues hs ?m\<rparr>, map (\<lambda>h. hd (by_age ?m h)) (waited hs ?m),
          concat (map (\<lambda>h. tl (by_age ?m h)) (waited hs ?m)))"
      using Cons by simp
    have other: "waitingQueues ?m x = waitingQueues m x" "by_age ?m x = by_age m x" if "x \<noteq> h" for x
      using that by (simp_all add: set_queue_def by_age_def)
    have "h \<notin> set hs" using Cons.prems(2) by simp
    then have "(waitingQueues ?m x \<noteq> None) = (waitingQueues m x \<noteq> None)" if "x \<in> set hs" for x
      using that other(1) [of x] by (cases "x = h") auto
    then have waited: "waited hs ?m = waited hs m"
      unfolding waited_def by (intro filter_cong) simp_all
    have nh: "h \<notin> set (waited hs m)"
      using \<open>h \<notin> set hs\<close> by (simp add: waited_def)
    have "map (\<lambda>x. g (by_age ?m x)) (waited hs m) = map (\<lambda>x. g (by_age m x)) (waited hs m)" for g :: "waiter_id list \<Rightarrow> 'b"
      using nh other(2) by (metis (mono_tags, lifting) map_cong)
    note maps = this
    have qs: "woken_queues hs ?m = woken_queues (h # hs) m"
      using other \<open>h \<notin> set hs\<close> Some age by (auto simp: woken_queues_def set_queue_def fun_eq_iff)
    have "?m\<lparr>waitingQueues := x\<rparr> = m\<lparr>waitingQueues := x\<rparr>" for x
      by (simp add: set_queue_def)
    then show ?thesis
      using ne IH unfolding waited maps qs
      by (cases ?s) (auto simp: Some getOldestWaiter_def waited_def age)
  qed
qed

lemma send_fold_distinct:
  "distinct ws \<Longrightarrow> fold (\<lambda>i H. H(i := map_option (try_send r) (H i))) ws H i =
     (if i \<in> set ws then map_option (try_send r) (H i) else H i)"
  by (induction ws arbitrary: H) auto

lemma waiters_send_all:
  "distinct ws \<Longrightarrow> waiters (send_all r ws m) i =
     (if i \<in> set ws then map_option (try_send r) (waiters m i) else waiters m i)"
  by (simp add: send_all_def send_fold_distinct)

lemma queues_send_all [simp]: "waitingQueues (send_all r ws m) = waitingQueues m"
  by (simp add: send_all_def)

lemma by_age_facts:
  assumes "wf_mgr m" "waitingQueues m h = Some q"
  shows "by_age m h = hd (by_age m h) # tl (by_age m h)" "set (by_age m h) = set q"
    "distinct (by_age m h)" "mset (by_age m h) = mset q"
    "i \<in> set q \<Longrightarrow> startTS_of (waiters m) (hd (by_age m h)) \<le> startTS_of (waiters m) i"
proof -
  have ne: "by_age m h \<noteq> []"
    using assms(2) wf_mgrD(1) [OF assms] by (simp add: by_age_def) (metis set_empty set_sort)
  then show split: "by_age m h = hd (by_age m h) # tl (by_age m h)" by simp
  show st: "set (by_age m h) = set q" "distinct (by_age m h)" "mset (by_age m h) = mset q"
    using assms(2) wf_mgrD(2) [OF assms] by (simp_all add: by_age_def)
  have "sorted (map (startTS_of (waiters m)) (by_age m h))"
    by (simp add: by_age_def)
  then have "\<forall>x\<in>set (by_age m h). startTS_of (waiters m) (hd (by_age m h)) \<le> startTS_of (waiters m) x"
    by (subst (asm) split, subst split) auto
  then show "i \<in> set q \<Longrightarrow> startTS_of (waiters m) (hd (by_age m h)) \<le> startTS_of (waiters m) i"
    using st(1) by simp
qed

lemma mset_woken:
  assumes "wf_mgr m" "\<forall>h\<in>set hs. waitingQueues m h \<noteq> None"
  shows "mset (map (\<lambda>h. hd (by_age m h)) hs @ concat (map (\<lambda>h. tl (by_age m h)) hs)) =
    mset (concat (map (by_age m) hs))"
  using assms(2)
proof (induction hs)
  case (Cons h hs)
  then obtain q where "waitingQueues m h = Some q" by auto
  from by_age_facts(1) [OF assms(1) this]
  have "mset (by_age m h) = {#hd (by_age m h)#} + mset (tl (by_age m h))"
    by (metis add_mset_add_single mset.simps(2) add.commute)
  then show ?case using Cons by simp
qed simp

lemma distinct_by_age:
  assumes "wf_mgr m" "\<forall>h\<in>set hs. waitingQueues m h \<noteq> None" "distinct hs"
  shows "distinct (concat (map (by_age m) hs))"
  using assms(2,3)
proof (induction hs)
  case (Cons h hs)
  then obtain q where q: "waitingQueues m h = Some q" by auto
  have "set (by_age m h) \<inter> set (by_age m h') = {}" if h': "h' \<in> set hs" for h'
  proof -
    obtain q' where q': "waitingQueues m h' = Some q'" using h' Cons.prems by auto
    have "h \<noteq> h'" using h' Cons.prems by auto
    then show ?thesis
      using wf_mgr_hash_unique [OF assms(1) q q'] by_age_facts(2) [OF assms(1) q] by_age_facts(2) [OF assms(1) q']
      by auto
  qed
  then show ?case
    using Cons by_age_facts(3) [OF assms(1) q] by auto
qed simp

lemma distinct_woken:
  assumes "wf_mgr m" "distinct hs"
  shows "distinct (map (\<lambda>h. hd (by_age m h)) (waited hs m) @ concat (map (\<lambda>h. tl (by_age m h)) (waited hs m)))"
proof -
  have "\<forall>h\<in>set (waited hs m). waitingQueues m h \<noteq> None" "distinct (waited hs m)"
    using assms(2) by (simp_all add: waited_def)
  then show ?thesis
    using mset_woken [OF assms(1)] distinct_by_age [OF assms(1)] mset_eq_imp_distinct_iff by blast
qed

lemma WakeUp_eq:
  assumes "wf_mgr m" "distinct hs"
  shows "WakeUp m txn c hs = Some
    (send_all (wake_msg WakeupDelayTimeout c) (concat (map (\<lambda>h. tl (by_age m h)) (waited hs m)))
      (send_all (wake_msg WakeUpThisWaiter c) (map (\<lambda>h. hd (by_age m h)) (waited hs m))
        (m\<lparr>waitingQueues := woken_queues hs m\<rparr>)))"
  by (simp add: WakeUp_def WakeUp_collect_eq [OF assms])

text \<open>
  Waking up a queue: its oldest waiter leaves and is told to retry, the others stay and are
  told to retry after the delay.
\<close>

lemma WakeUp_queue:
  assumes wf: "wf_mgr m" and "distinct hs" "WakeUp m txn c hs = Some m'"
    and h: "h \<in> set hs" and q: "waitingQueues m h = Some q"
  shows "\<exists>w q'. w \<in> set q \<and> mset q = add_mset w (mset q') \<and>
     (\<forall>v\<in>set q. startTS_of (waiters m) w \<le> startTS_of (waiters m) v) \<and>
     waitingQueues m' h = (if q' = [] then None else Some q') \<and>
     waiters m' w = map_option (try_send (wake_msg WakeUpThisWaiter c)) (waiters m w) \<and>
     (\<forall>v\<in>set q'. waiters m' v = map_option (try_send (wake_msg WakeupDelayTimeout c)) (waiters m v))"
proof -
  let ?ws = "map (\<lambda>h. hd (by_age m h)) (waited hs m)"
  let ?ds = "concat (map (\<lambda>h. tl (by_age m h)) (waited hs m))"
  have m': "m' = send_all (wake_msg WakeupDelayTimeout c) ?ds
      (send_all (wake_msg WakeUpThisWaiter c) ?ws (m\<lparr>waitingQueues := woken_queues hs m\<rparr>))"
    using WakeUp_eq [OF assms(1,2)] assms(3) by simp
  have d: "distinct ?ws" "distinct ?ds" "set ?ws \<inter> set ?ds = {}"
    using distinct_woken [OF assms(1,2)] by simp_all
  have inW: "h \<in> set (waited hs m)" using h q by (simp add: waited_def)
  let ?w = "hd (by_age m h)" and ?q = "tl (by_age m h)"
  have w: "?w \<in> set ?ws" "set ?q \<subseteq> set ?ds" using inW by auto
  have "mset q = add_mset ?w (mset ?q)"
    using by_age_facts(1,4) [OF wf q] by (metis mset.simps(2))
  moreover have "waitingQueues m' h = (if ?q = [] then None else Some ?q)"
    unfolding m' using h q by (simp add: woken_queues_def)
  moreover have "?w \<in> set q"
    using by_age_facts(1,2) [OF wf q] by (metis list.set_intros(1))
  moreover have "waiters m' ?w = map_option (try_send (wake_msg WakeUpThisWaiter c)) (waiters m ?w)"
    using w d unfolding m' by (subst waiters_send_all, simp, subst waiters_send_all) auto
  moreover have "waiters m' v = map_option (try_send (wake_msg WakeupDelayTimeout c)) (waiters m v)"
    if "v \<in> set ?q" for v
    using w d that unfolding m' by (subst waiters_send_all, simp, subst waiters_send_all) auto
  ultimately show ?thesis
    using by_age_facts(5) [OF wf q] by (intro exI [of _ ?w] exI [of _ ?q]) blast
qed

section \<open>Steps of the manager\<close>

inductive lw_step :: "Manager \<Rightarrow> Manager \<Rightarrow> bool" where
  new: "NewWaiter now m startTS lockTS keyHash timeout = (i, m') \<Longrightarrow> lw_step m m'"
| wake: "WakeUp m txn commitTS keyHashes = Some m' \<Longrightarrow> lw_step m m'"
| cleanup: "CleanUp m i = Some m' \<Longrightarrow> lw_step m m'"
| deadlock: "WakeUpForDeadlock m resp = Some m' \<Longrightarrow> lw_step m m'"
| wait: "\<lbrakk>waiters m i = Some w; Wait evs w = Some (r, w')\<rbrakk> \<Longrightarrow> lw_step m (m\<lparr>waiters := (waiters m)(i \<mapsto> w')\<rparr>)"

lemma WakeUp_collect_wf:
  "wf_mgr m \<Longrightarrow> \<exists>m' ws ds. WakeUp_collect hs m = Some (m', ws, ds) \<and> wf_mgr m'"
proof (induction hs arbitrary: m)
  case (Cons h hs)
  show ?case
  proof (cases "waitingQueues m h")
    case None
    then show ?thesis using Cons by simp
  next
    case (Some q)
    note f = by_age_facts [OF Cons.prems Some]
    have g: "getOldestWaiter (waiters m) q = Some (hd (by_age m h), tl (by_age m h))"
      using f(1) Some by (simp add: getOldestWaiter_def by_age_def split: list.splits) (metis list.distinct(1) list.sel)
    have "set (tl (by_age m h)) \<subseteq> set q" "distinct (tl (by_age m h))"
      using f(1,2,3) by (metis list.set_intros(2) subsetI, metis distinct_tl)
    then have "wf_mgr (set_queue h (tl (by_age m h)) m)"
      using Cons.prems Some by (intro wf_set_queue)
    from Cons.IH [OF this] show ?thesis using Some g by auto
  qed
qed simp

lemma wf_WakeUp: "\<lbrakk>wf_mgr m; WakeUp m txn c hs = Some m'\<rbrakk> \<Longrightarrow> wf_mgr m'"
  using WakeUp_collect_wf [of m hs] by (auto simp: WakeUp_def intro!: wf_send_all)

lemma wf_CleanUp: "\<lbrakk>wf_mgr m; CleanUp m i = Some m'\<rbrakk> \<Longrightarrow> wf_mgr m'"
proof -
  assume wf: "wf_mgr m" and c: "CleanUp m i = Some m'"
  from c obtain w where w: "waiters m i = Some w" by (auto simp: CleanUp_def split: option.splits)
  have upd: "wf_mgr (lw\<lparr>waiters := (waiters lw)(i \<mapsto> DrainCh w)\<rparr>)" if "wf_mgr lw" "waiters lw = waiters m" for lw
    using that w by (intro wf_update_waiters) (simp_all add: DrainCh_def)
  show ?thesis
  proof (cases "waitingQueues m (KeyHash w)")
    case None
    then show ?thesis using c w upd [OF wf] by (simp add: CleanUp_def)
  next
    case (Some q)
    have "wf_mgr (set_queue (KeyHash w) (removeWaiter i q) m)"
      using wf Some set_removeWaiter [of q i] wf_mgrD(2) [OF wf Some] by (intro wf_set_queue) auto
    from upd [OF this] Some show ?thesis using c w by (simp add: CleanUp_def set_queue_def)
  qed
qed

lemma wf_WakeUpForDeadlock: "\<lbrakk>wf_mgr m; WakeUpForDeadlock m resp = Some m'\<rbrakk> \<Longrightarrow> wf_mgr m'"
proof -
  assume wf: "wf_mgr m" and c: "WakeUpForDeadlock m resp = Some m'"
  let ?h = "wfe_KeyHash (dr_Entry resp)"
  show ?thesis
  proof (cases "waitingQueues m ?h")
    case None
    then show ?thesis using wf c by (simp add: WakeUpForDeadlock_def)
  next
    case (Some q)
    have rm: "wf_mgr (set_queue ?h (removeWaiter i q) m)" for i
      using wf Some set_removeWaiter [of q i] wf_mgrD(2) [OF wf Some] by (intro wf_set_queue) auto
    have same: "wf_mgr (set_queue ?h q m)"
      using wf Some wf_mgrD(2) [OF wf Some] by (intro wf_set_queue) auto
    have upd: "wf_mgr (lw\<lparr>waiters := (waiters m)(i \<mapsto> w\<lparr>ch := x\<rparr>)\<rparr>)"
      if "wf_mgr lw" "waiters lw = waiters m" "waiters m i = Some w" for lw i w x
      using that by (intro wf_update_waiters) simp_all
    show ?thesis
      using c Some same rm
      by (auto simp: WakeUpForDeadlock_def Let_def split: list.splits option.splits if_splits intro!: upd)
  qed
qed

lemma lw_step_wf: "\<lbrakk>lw_step m m'; wf_mgr m\<rbrakk> \<Longrightarrow> wf_mgr m'"
proof (induction rule: lw_step.induct)
  case (new now m startTS lockTS keyHash timeout i m')
  then show ?case using wf_NewWaiter by (metis snd_conv)
next
  case (wait m i w evs r w')
  then show ?case by (intro wf_update_waiters) (auto dest: KeyHash_Wait)
qed (auto intro: wf_WakeUp wf_CleanUp wf_WakeUpForDeadlock)

lemma lw_reach_wf: "lw_step\<^sup>*\<^sup>* (NewManager d) m \<Longrightarrow> wf_mgr m"
  by (induction rule: rtranclp_induct) (auto intro: wf_NewManager lw_step_wf)

lemma Wait_returns:
  "\<lbrakk>timer w \<le> deadlineTime w; TimerC t \<in> set evs; deadlineTime w \<le> t\<rbrakk> \<Longrightarrow> \<exists>r w'. Wait evs w = Some (r, w')"
proof (induction evs w rule: Wait.induct)
  case (3 now evs w)
  show ?case
  proof (cases "ch w")
    case Nil
    then show ?thesis using 3 by simp
  next
    case (Cons a list)
    then show ?thesis using 3 by (auto simp: Let_def)
  qed
qed auto

section \<open>Properties\<close>

text \<open>
  C30: in every state that any sequence of new waiters, wake-ups, deadlock
  responses, waits and clean-ups reaches, no queue is empty or holds a waiter twice or a
  waiter of another key, and \<^verbatim>\<open>WakeUp\<close> returns (it indexes the first waiter of a queue
  without a check).
\<close>

theorem waiters_invariant:
  assumes "lw_step\<^sup>*\<^sup>* (NewManager d) m"
  shows "wf_mgr m \<and> (\<exists>m'. WakeUp m txn commitTS keyHashes = Some m')"
  using lw_reach_wf [OF assms] WakeUp_collect_wf [of m keyHashes] by (auto simp: WakeUp_def)

definition two_waiters :: Manager where
  "two_waiters = snd (NewWaiter 1 (snd (NewWaiter 0 (NewManager 100) 9 3 77 5000000)) 4 3 77 5000000)"

lemma two_waiters_reach: "lw_step\<^sup>*\<^sup>* (NewManager 100) two_waiters"
  unfolding two_waiters_def
  by (rule rtranclp.rtrancl_into_rtrancl [OF r_into_rtranclp]; rule lw_step.new [OF surjective_pairing])

theorem waiters_invariant_witness:
  "wf_mgr two_waiters \<and> (\<exists>m'. WakeUp two_waiters 3 20 [77, 78] = Some m')"
  using waiters_invariant [OF two_waiters_reach] by blast

text \<open>
  C31: waking up the waiters of a key takes the waiter with the smallest start
  timestamp out of the queue and tells it to retry now, keeps all others in the queue and tells
  them to retry after the delay, and leaves the queues of other keys alone.
\<close>

theorem WakeUp_oldest:
  assumes "wf_mgr m" "distinct keyHashes" "WakeUp m txn commitTS keyHashes = Some m'"
  shows "(h \<in> set keyHashes \<and> waitingQueues m h = Some q \<longrightarrow>
     (\<exists>w q'. w \<in> set q \<and> mset q = add_mset w (mset q') \<and>
       (\<forall>v\<in>set q. startTS_of (waiters m) w \<le> startTS_of (waiters m) v) \<and>
       waitingQueues m' h = (if q' = [] then None else Some q') \<and>
       waiters m' w = map_option (try_send (wake_msg WakeUpThisWaiter commitTS)) (waiters m w) \<and>
       (\<forall>v\<in>set q'. waiters m' v = map_option (try_send (wake_msg WakeupDelayTimeout commitTS)) (waiters m v)))) \<and>
     (h \<notin> set keyHashes \<longrightarrow> waitingQueues m' h = waitingQueues m h)"
  using WakeUp_queue [OF assms] WakeUp_eq [OF assms(1,2), of txn commitTS] assms(3)
  by (auto simp: woken_queues_def)

theorem WakeUp_oldest_witness:
  "\<exists>m'. WakeUp two_waiters 3 20 [77] = Some m' \<and> waitingQueues m' 78 = waitingQueues two_waiters 78"
proof -
  have wf: "wf_mgr two_waiters" by (rule lw_reach_wf [OF two_waiters_reach])
  then obtain m' where "WakeUp two_waiters 3 20 [77] = Some m'"
    using WakeUp_eq [of two_waiters "[77]"] by auto
  with WakeUp_oldest [OF wf _ this, of 78] show ?thesis by simp
qed

text \<open>
  C32: a wait ends no later than its deadline: the timer of a new waiter is set to the
  deadline, a delayed wake-up only moves it to a time before the deadline, and as soon as the
  loop looks at the timer at or after the deadline it has returned.
\<close>

theorem Wait_ends:
  assumes "timer w \<le> deadlineTime w" "TimerC t \<in> set evs" "deadlineTime w \<le> t"
  shows "\<exists>r w'. Wait evs w = Some (r, w')"
  using assms by (rule Wait_returns)

theorem Wait_ends_witness:
  "\<exists>r w'. Wait [RecvCh 3, TimerC 6000000] (the (waiters two_waiters 0)) = Some (r, w')"
proof (rule Wait_ends)
  show "TimerC 6000000 \<in> set [RecvCh 3, TimerC 6000000]" by simp
qed (simp_all add: two_waiters_def NewWaiter_def NewManager_def Let_def)

end
