(* ===== verification/Detector.thy ===== *)
theory Detector
  imports Lockwaiter "HOL-Library.AList"
begin

text \<open>
  The deadlock detector of the pessimistic transactions (\<^verbatim>\<open>tikv/detector.go\<close>) and the
  client and server around it (\<^verbatim>\<open>tikv/deadlock.go\<close>). The wait-for map is an association list
  with distinct keys; its order stands for Go's order of iteration, which no result depends on.
  The search may recurse for ever on a cyclic graph, so it is a partial function.
\<close>

section \<open>State\<close>

record diagnosticContext =
  dc_key :: bytes
  dc_resourceGroupTag :: bytes

record txnKeyHashPair =
  tp_txn :: u64
  tp_keyHash :: u64
  registerTime :: int
  diagCtx :: diagnosticContext

record Detector =
  waitForMap :: "(u64 \<times> txnKeyHashPair list) list"
  entryTTL :: int
  totalSize :: u64
  lastActiveExpire :: int
  urgentSize :: u64
  expireInterval :: int

record ErrDeadlock =
  ed_DeadlockKeyHash :: u64
  ed_WaitChain :: "WaitForEntry list"

definition isExpired :: "txnKeyHashPair \<Rightarrow> int \<Rightarrow> int \<Rightarrow> bool" where
  "isExpired p ttl nowTime \<longleftrightarrow> registerTime p + ttl < nowTime"

definition NewDetector :: "int \<Rightarrow> int \<Rightarrow> u64 \<Rightarrow> int \<Rightarrow> Detector" where
  "NewDetector now ttl urgent interval =
     \<lparr>waitForMap = [], entryTTL = ttl, totalSize = 0, lastActiveExpire = now, urgentSize = urgent,
      expireInterval = interval\<rparr>"

definition waitFor_entry :: "u64 \<Rightarrow> txnKeyHashPair \<Rightarrow> WaitForEntry" where
  "waitFor_entry waitForTxn p =
     \<lparr>wfe_Txn = waitForTxn, wfe_WaitForTxn = tp_txn p, wfe_KeyHash = tp_keyHash p,
      wfe_Key = dc_key (diagCtx p), wfe_ResourceGroupTag = dc_resourceGroupTag (diagCtx p)\<rparr>"

abbreviation lookup :: "Detector \<Rightarrow> u64 \<Rightarrow> txnKeyHashPair list option" where
  "lookup d \<equiv> map_of (waitForMap d)"

section \<open>Operations\<close>

text \<open>
  The loop over the waits of \<^verbatim>\<open>waitForTxn\<close>: \<open>kept\<close> are the elements passed, \<open>rest\<close> those to come,
  and the list in the map is \<open>kept @ rest\<close>.
\<close>

partial_function (option) doDetect_loop ::
  "int \<Rightarrow> u64 \<Rightarrow> u64 \<Rightarrow> txnKeyHashPair list \<Rightarrow> txnKeyHashPair list \<Rightarrow> Detector \<Rightarrow> (ErrDeadlock option \<times> Detector) option"
where
  [code]: "doDetect_loop nowTime sourceTxn waitForTxn kept rest d =
     (case rest of
        [] \<Rightarrow> Some (None, if kept = [] then d\<lparr>waitForMap := AList.delete waitForTxn (waitForMap d)\<rparr> else d)
      | p # rest' \<Rightarrow>
          if isExpired p (entryTTL d) nowTime
          then doDetect_loop nowTime sourceTxn waitForTxn kept rest'
                 (d\<lparr>waitForMap := AList.update waitForTxn (kept @ rest') (waitForMap d),
                    totalSize := totalSize d - 1\<rparr>)
          else if tp_txn p = sourceTxn
          then Some (Some \<lparr>ed_DeadlockKeyHash = tp_keyHash p, ed_WaitChain = [waitFor_entry waitForTxn p]\<rparr>, d)
          else Option.bind
            (case lookup d (tp_txn p) of
               None \<Rightarrow> Some (None, d)
             | Some l \<Rightarrow> doDetect_loop nowTime sourceTxn (tp_txn p) [] l d)
            (\<lambda>(r, d'). case r of
               Some err \<Rightarrow> Some (Some (err\<lparr>ed_WaitChain := ed_WaitChain err @ [waitFor_entry waitForTxn p]\<rparr>), d')
             | None \<Rightarrow> doDetect_loop nowTime sourceTxn waitForTxn (kept @ [p]) rest' d'))"

definition doDetect :: "int \<Rightarrow> u64 \<Rightarrow> u64 \<Rightarrow> Detector \<Rightarrow> (ErrDeadlock option \<times> Detector) option" where
  "doDetect nowTime sourceTxn waitForTxn d =
     (case lookup d waitForTxn of
        None \<Rightarrow> Some (None, d)
      | Some l \<Rightarrow> doDetect_loop nowTime sourceTxn waitForTxn [] l d)"

definition register :: "int \<Rightarrow> u64 \<Rightarrow> u64 \<Rightarrow> u64 \<Rightarrow> diagnosticContext \<Rightarrow> Detector \<Rightarrow> Detector" where
  "register now sourceTxn waitForTxn keyHash ctx d =
     (let pair = \<lparr>tp_txn = waitForTxn, tp_keyHash = keyHash, registerTime = now, diagCtx = ctx\<rparr>
      in case lookup d sourceTxn of
           None \<Rightarrow> d\<lparr>waitForMap := AList.update sourceTxn [pair] (waitForMap d), totalSize := totalSize d + 1\<rparr>
         | Some l \<Rightarrow>
             if \<exists>p\<in>set l. tp_txn p = waitForTxn \<and> tp_keyHash p = keyHash then d
             else d\<lparr>waitForMap := AList.update sourceTxn (l @ [pair]) (waitForMap d), totalSize := totalSize d + 1\<rparr>)"

fun activeExpire_loop :: "int \<Rightarrow> int \<Rightarrow> (u64 \<times> txnKeyHashPair list) list \<Rightarrow> u64 \<Rightarrow> (u64 \<times> txnKeyHashPair list) list \<times> u64" where
  "activeExpire_loop ttl now [] sz = ([], sz)"
| "activeExpire_loop ttl now ((txn, l) # m) sz =
     (let l' = filter (\<lambda>p. \<not> isExpired p ttl now) l;
          (m', sz') = activeExpire_loop ttl now m (sz - of_nat (length l - length l'))
      in (if l' = [] then m' else (txn, l') # m', sz'))"

definition activeExpire :: "int \<Rightarrow> Detector \<Rightarrow> Detector" where
  "activeExpire nowTime d =
     (if nowTime - lastActiveExpire d > expireInterval d \<and> totalSize d \<ge> urgentSize d
      then let (m, sz) = activeExpire_loop (entryTTL d) nowTime (waitForMap d) (totalSize d)
        in d\<lparr>waitForMap := m, totalSize := sz, lastActiveExpire := nowTime\<rparr>
      else d)"

text \<open>\<^verbatim>\<open>Detect\<close> reads the clock twice: at its start and when it registers the wait.\<close>

definition Detector_Detect ::
  "int \<Rightarrow> int \<Rightarrow> u64 \<Rightarrow> u64 \<Rightarrow> u64 \<Rightarrow> diagnosticContext \<Rightarrow> Detector \<Rightarrow> (ErrDeadlock option \<times> Detector) option"
where
  "Detector_Detect nowTime now2 sourceTxn waitForTxn keyHash ctx d =
     map_option (\<lambda>(r, d). case r of
         None \<Rightarrow> (None, register now2 sourceTxn waitForTxn keyHash ctx d)
       | Some err \<Rightarrow>
           (Some (err\<lparr>ed_WaitChain := rev (ed_WaitChain err) @
              [\<lparr>wfe_Txn = sourceTxn, wfe_WaitForTxn = waitForTxn, wfe_KeyHash = keyHash,
                wfe_Key = dc_key ctx, wfe_ResourceGroupTag = dc_resourceGroupTag ctx\<rparr>]\<rparr>), d))
       (doDetect nowTime sourceTxn waitForTxn (activeExpire nowTime d))"

definition Detector_CleanUp :: "u64 \<Rightarrow> Detector \<Rightarrow> Detector" where
  "Detector_CleanUp txn d =
     d\<lparr>totalSize := (case lookup d txn of Some l \<Rightarrow> totalSize d - of_nat (length l) | None \<Rightarrow> totalSize d),
       waitForMap := AList.delete txn (waitForMap d)\<rparr>"

fun CleanUpWaitFor_loop :: "u64 \<Rightarrow> u64 \<Rightarrow> txnKeyHashPair list \<Rightarrow> txnKeyHashPair list" where
  "CleanUpWaitFor_loop waitForTxn keyHash [] = []"
| "CleanUpWaitFor_loop waitForTxn keyHash (p # l) =
     (if tp_txn p = waitForTxn \<and> tp_keyHash p = keyHash then l
      else p # CleanUpWaitFor_loop waitForTxn keyHash l)"

definition Detector_CleanUpWaitFor :: "u64 \<Rightarrow> u64 \<Rightarrow> u64 \<Rightarrow> Detector \<Rightarrow> Detector" where
  "Detector_CleanUpWaitFor txn waitForTxn keyHash d =
     (case lookup d txn of
        None \<Rightarrow> d
      | Some l \<Rightarrow>
          let l' = CleanUpWaitFor_loop waitForTxn keyHash l
          in d\<lparr>totalSize := totalSize d - of_nat (length l - length l'),
               waitForMap := (if l' = [] then AList.delete txn (waitForMap d)
                              else AList.update txn l' (waitForMap d))\<rparr>)"

section \<open>Client and server\<close>

datatype DeadlockRequestType = Req_Detect | Req_CleanUpWaitFor | Req_CleanUp

record DeadlockRequest =
  req_Tp :: DeadlockRequestType
  req_Entry :: WaitForEntry

definition convertErrToResp :: "ErrDeadlock \<Rightarrow> u64 \<Rightarrow> u64 \<Rightarrow> u64 \<Rightarrow> DeadlockResponse" where
  "convertErrToResp err txnTs waitForTxnTs keyHash =
     \<lparr>dr_Entry = \<lparr>wfe_Txn = txnTs, wfe_WaitForTxn = waitForTxnTs, wfe_KeyHash = keyHash, wfe_Key = [],
                  wfe_ResourceGroupTag = []\<rparr>,
      dr_DeadlockKeyHash = ed_DeadlockKeyHash err, dr_WaitChain = ed_WaitChain err\<rparr>"

definition DetectorServer_Detect ::
  "int \<Rightarrow> int \<Rightarrow> DeadlockRequest \<Rightarrow> Detector \<Rightarrow> (DeadlockResponse option \<times> Detector) option" where
  "DetectorServer_Detect now now2 req d =
     (let e = req_Entry req
      in case req_Tp req of
        Req_Detect \<Rightarrow>
          map_option (\<lambda>(r, d').
              (map_option (\<lambda>err. convertErrToResp err (wfe_Txn e) (wfe_WaitForTxn e) (wfe_KeyHash e)) r, d'))
            (Detector_Detect now now2 (wfe_Txn e) (wfe_WaitForTxn e) (wfe_KeyHash e)
              \<lparr>dc_key = wfe_Key e, dc_resourceGroupTag = wfe_ResourceGroupTag e\<rparr> d)
      | Req_CleanUpWaitFor \<Rightarrow>
          Some (None, Detector_CleanUpWaitFor (wfe_Txn e) (wfe_WaitForTxn e) (wfe_KeyHash e) d)
      | Req_CleanUp \<Rightarrow> Some (None, Detector_CleanUp (wfe_Txn e) d))"

definition NewDetectorServer :: "int \<Rightarrow> Detector" where
  "NewDetectorServer now = NewDetector now (3 * 10 ^ 9) 100000 (3600 * 10 ^ 9)"

text \<open>The client queues requests on its channel.\<close>

definition handleRemoteTask ::
  "DeadlockRequestType \<Rightarrow> u64 \<Rightarrow> u64 \<Rightarrow> u64 \<Rightarrow> diagnosticContext \<Rightarrow> DeadlockRequest list \<Rightarrow> DeadlockRequest list" where
  "handleRemoteTask tp txnTs waitForTxnTs keyHash ctx sendCh =
     sendCh @ [\<lparr>req_Tp = tp, req_Entry = \<lparr>wfe_Txn = txnTs, wfe_WaitForTxn = waitForTxnTs, wfe_KeyHash = keyHash,
                wfe_Key = dc_key ctx, wfe_ResourceGroupTag = dc_resourceGroupTag ctx\<rparr>\<rparr>]"

definition no_diagnostics :: diagnosticContext where
  "no_diagnostics = \<lparr>dc_key = [], dc_resourceGroupTag = []\<rparr>"

definition DetectorClient_CleanUp :: "u64 \<Rightarrow> DeadlockRequest list \<Rightarrow> DeadlockRequest list" where
  "DetectorClient_CleanUp startTs = handleRemoteTask Req_CleanUp startTs 0 0 no_diagnostics"

definition DetectorClient_CleanUpWaitFor :: "u64 \<Rightarrow> u64 \<Rightarrow> u64 \<Rightarrow> DeadlockRequest list \<Rightarrow> DeadlockRequest list" where
  "DetectorClient_CleanUpWaitFor txnTs waitForTxn keyHash =
     handleRemoteTask Req_CleanUpWaitFor txnTs waitForTxn keyHash no_diagnostics"

definition DetectorClient_Detect ::
  "u64 \<Rightarrow> u64 \<Rightarrow> u64 \<Rightarrow> bytes \<Rightarrow> bytes \<Rightarrow> DeadlockRequest list \<Rightarrow> DeadlockRequest list" where
  "DetectorClient_Detect txnTs waitForTxnTs keyHash key resourceGroupTag =
     handleRemoteTask Req_Detect txnTs waitForTxnTs keyHash
       \<lparr>dc_key = key, dc_resourceGroupTag = resourceGroupTag\<rparr>"

text \<open>One turn of the local loop of \<^verbatim>\<open>StartDeadlockDetection\<close>: take a request, detect, wake up.\<close>

definition detection_turn ::
  "int \<Rightarrow> int \<Rightarrow> DeadlockRequest list \<times> Detector \<times> Manager \<Rightarrow> (DeadlockRequest list \<times> Detector \<times> Manager) option" where
  "detection_turn now now2 = (\<lambda>(sendCh, svr, mgr).
     case sendCh of
       [] \<Rightarrow> Some ([], svr, mgr)
     | req # sendCh' \<Rightarrow>
         Option.bind (DetectorServer_Detect now now2 req svr) (\<lambda>(resp, svr').
           case resp of
             None \<Rightarrow> Some (sendCh', svr', mgr)
           | Some r \<Rightarrow> map_option (\<lambda>mgr'. (sendCh', svr', mgr')) (WakeUpForDeadlock mgr r)))"

section \<open>The wait-for graph\<close>

declare map_of_eq_Some_iff [simp del]

text \<open>The edges of the graph at a time: the waits that have not expired.\<close>

definition edges :: "int \<Rightarrow> Detector \<Rightarrow> (u64 \<times> u64) set" where
  "edges t d = {(a, b). \<exists>l p. lookup d a = Some l \<and> p \<in> set l \<and> tp_txn p = b \<and> \<not> isExpired p (entryTTL d) t}"

lemma edgesI: "\<lbrakk>lookup d a = Some l; p \<in> set l; \<not> isExpired p (entryTTL d) t\<rbrakk> \<Longrightarrow> (a, tp_txn p) \<in> edges t d"
  by (auto simp: edges_def)

lemma edgesE:
  assumes "(a, b) \<in> edges t d"
  obtains l p where "lookup d a = Some l" "p \<in> set l" "tp_txn p = b" "\<not> isExpired p (entryTTL d) t"
  using assms by (auto simp: edges_def)

lemma finite_edges: "finite (edges t d)"
proof -
  have "edges t d \<subseteq> fst ` set (waitForMap d) \<times> (\<Union>(a, l)\<in>set (waitForMap d). tp_txn ` set l)"
    by (force elim!: edgesE dest: map_of_SomeD)
  then show ?thesis by (rule finite_subset) auto
qed

definition total :: "(u64 \<times> txnKeyHashPair list) list \<Rightarrow> nat" where
  "total m = sum_list (map (length \<circ> snd) m)"

text \<open>
  The state the detector keeps: one entry per transaction, no empty entry, and \<^verbatim>\<open>totalSize\<close>
  counting the waits. During the search the entry of the transaction in hand may be empty.
\<close>

definition counted :: "Detector \<Rightarrow> bool" where
  "counted d \<longleftrightarrow> distinct (map fst (waitForMap d)) \<and> totalSize d = of_nat (total (waitForMap d))"

definition wf_det :: "Detector \<Rightarrow> bool" where
  "wf_det d \<longleftrightarrow> counted d \<and> (\<forall>a. lookup d a \<noteq> Some [])"

lemma total_update:
  "\<lbrakk>distinct (map fst m); map_of m k = Some l\<rbrakk> \<Longrightarrow> total (AList.update k l' m) + length l = total m + length l'"
  by (induction m) (auto simp: total_def split: if_splits)

lemma total_update_new: "map_of m k = None \<Longrightarrow> total (AList.update k l' m) = total m + length l'"
  by (induction m) (auto simp: total_def split: if_splits)

lemma delete_absent: "map_of m k = None \<Longrightarrow> AList.delete k m = m"
  by (simp add: map_of_eq_None_iff AList.delete_idem)

lemma total_delete:
  "\<lbrakk>distinct (map fst m); map_of m k = Some l\<rbrakk> \<Longrightarrow> total (AList.delete k m) + length l = total m"
proof (induction m)
  case (Cons a m)
  show ?case
  proof (cases "fst a = k")
    case True
    then have "map_of m k = None" using Cons.prems(1) by (auto simp: map_of_eq_None_iff)
    then show ?thesis using True Cons.prems(2) by (cases a) (simp add: total_def delete_absent)
  next
    case False
    then show ?thesis using Cons by (cases a) (simp add: total_def)
  qed
qed simp

lemma lookup_upd [simp]:
  "map_of (AList.update k l m) = (map_of m)(k \<mapsto> l)" "map_of (AList.delete k m) = (map_of m)(k := None)"
  by (simp_all add: update_conv' delete_conv')

section \<open>The search\<close>

fun wait_path :: "(u64 \<times> u64) set \<Rightarrow> u64 \<Rightarrow> WaitForEntry list \<Rightarrow> u64 \<Rightarrow> bool" where
  "wait_path E a [] b \<longleftrightarrow> a = b"
| "wait_path E a (e # es) b \<longleftrightarrow> wfe_Txn e = a \<and> (a, wfe_WaitForTxn e) \<in> E \<and> wait_path E (wfe_WaitForTxn e) es b"

text \<open>
  What a search from \<open>w\<close> leaves behind: the same graph, expired waits removed from entries that
  \<open>w\<close> reaches, and the count right.
\<close>

definition searched :: "int \<Rightarrow> (u64 \<times> u64) set \<Rightarrow> u64 \<Rightarrow> Detector \<Rightarrow> Detector \<Rightarrow> bool" where
  "searched t E w d d' \<longleftrightarrow>
     entryTTL d' = entryTTL d \<and> edges t d' = E \<and> counted d' \<and>
     (\<forall>x. (w, x) \<notin> E\<^sup>* \<longrightarrow> lookup d' x = lookup d x) \<and>
     (\<forall>a. a \<noteq> w \<longrightarrow> lookup d' a = Some [] \<longrightarrow> lookup d a = Some []) \<and>
     (\<forall>a l'. lookup d' a = Some l' \<longrightarrow> (\<exists>l. lookup d a = Some l \<and> set l' \<subseteq> set l))"

lemma searched_refl: "\<lbrakk>edges t d = E; counted d\<rbrakk> \<Longrightarrow> searched t E w d d"
  by (auto simp: searched_def)

lemma searched_trans:
  assumes "searched t E w d d1" "searched t E w d1 d2"
  shows "searched t E w d d2"
proof -
  have "\<exists>l. lookup d a = Some l \<and> set l2 \<subseteq> set l" if l2: "lookup d2 a = Some l2" for a l2
  proof -
    obtain l1 where "lookup d1 a = Some l1" "set l2 \<subseteq> set l1"
      using assms(2) l2 unfolding searched_def by blast
    then show ?thesis using assms(1) unfolding searched_def by (meson subset_trans)
  qed
  then show ?thesis
    using assms unfolding searched_def by simp
qed

lemma searched_step:
  assumes "(w, w') \<in> E" "searched t E w' d d'" "lookup d' w' \<noteq> Some []"
  shows "searched t E w d d'"
proof -
  have "(w', x) \<notin> E\<^sup>*" if "(w, x) \<notin> E\<^sup>*" for x
    using that assms(1) by (meson converse_rtrancl_into_rtrancl)
  then have "lookup d' x = lookup d x" if "(w, x) \<notin> E\<^sup>*" for x
    using assms(2) that by (simp add: searched_def)
  moreover have "lookup d a = Some []" if "lookup d' a = Some []" for a
    using assms(2,3) that by (cases "a = w'") (simp_all add: searched_def)
  ultimately show ?thesis
    using assms(2) by (simp add: searched_def)
qed

lemma searched_expire:
  assumes "edges t d = E" "counted d" "lookup d w = Some (kept @ p # rest)" "isExpired p (entryTTL d) t"
    and d': "d' = d\<lparr>waitForMap := AList.update w (kept @ rest) (waitForMap d), totalSize := totalSize d - 1\<rparr>"
  shows "searched t E w d d'"
proof -
  have "(a, b) \<in> edges t d' \<longleftrightarrow> (a, b) \<in> edges t d" for a b
    using assms(3,4) by (cases "a = w") (auto simp: d' edges_def)
  then have "edges t d' = edges t d" by (auto intro!: set_eqI)
  moreover have "counted d'"
  proof -
    have "total (AList.update w (kept @ rest) (waitForMap d)) + 1 = total (waitForMap d)"
      using total_update [of "waitForMap d" w "kept @ p # rest" "kept @ rest"] assms(2,3) by (simp add: counted_def)
    then have "totalSize d = of_nat (total (AList.update w (kept @ rest) (waitForMap d)) + 1)"
      using assms(2) by (simp only: counted_def)
    then have "totalSize d - 1 = of_nat (total (AList.update w (kept @ rest) (waitForMap d)))"
      by simp
    then show ?thesis using assms(2) by (simp add: counted_def d' distinct_update)
  qed
  ultimately show ?thesis
    using assms by (auto simp: searched_def)
qed

lemma searched_delete:
  assumes "edges t d = E" "counted d" "lookup d w = Some []"
    and d': "d' = d\<lparr>waitForMap := AList.delete w (waitForMap d)\<rparr>"
  shows "searched t E w d d'"
proof -
  have "edges t d' = edges t d"
    using assms(3) by (auto simp: d' edges_def split: if_splits)
  moreover have "counted d'"
    using total_delete [of "waitForMap d" w "[]"] assms(2,3) by (simp add: counted_def d' AList.distinct_delete)
  ultimately show ?thesis
    using assms by (auto simp: searched_def)
qed

lemma edges_from:
  assumes "lookup d w = Some kept" "\<forall>p\<in>set kept. \<not> isExpired p (entryTTL d) t"
  shows "(w, b) \<in> edges t d \<longleftrightarrow> (\<exists>p\<in>set kept. tp_txn p = b)"
  using assms by (auto simp: edges_def)

text \<open>
  The search returns, and its answer is right: no error means no path to the source, and the
  chain of an error is such a path.
\<close>

definition answered ::
  "int \<Rightarrow> (u64 \<times> u64) set \<Rightarrow> u64 \<Rightarrow> u64 \<Rightarrow> Detector \<Rightarrow> (ErrDeadlock option \<times> Detector) option \<Rightarrow> bool" where
  "answered t E s w d x \<longleftrightarrow>
     (\<exists>r d'. x = Some (r, d') \<and> searched t E w d d' \<and> lookup d' w \<noteq> Some [] \<and>
        (case r of None \<Rightarrow> (w, s) \<notin> E\<^sup>+
         | Some e \<Rightarrow> wait_path E w (rev (ed_WaitChain e)) s \<and> ed_WaitChain e \<noteq> []))"

lemma answered_trans: "\<lbrakk>searched t E w d d1; answered t E s w d1 x\<rbrakk> \<Longrightarrow> answered t E s w d x"
  unfolding answered_def using searched_trans by blast

lemma doDetect_loop_Nil:
  "doDetect_loop t s w kept [] d =
     Some (None, if kept = [] then d\<lparr>waitForMap := AList.delete w (waitForMap d)\<rparr> else d)"
  by (subst doDetect_loop.simps) simp

lemma doDetect_loop_Cons:
  "doDetect_loop t s w kept (p # rest) d =
     (if isExpired p (entryTTL d) t
      then doDetect_loop t s w kept rest
             (d\<lparr>waitForMap := AList.update w (kept @ rest) (waitForMap d), totalSize := totalSize d - 1\<rparr>)
      else if tp_txn p = s
      then Some (Some \<lparr>ed_DeadlockKeyHash = tp_keyHash p, ed_WaitChain = [waitFor_entry w p]\<rparr>, d)
      else Option.bind (doDetect t s (tp_txn p) d)
        (\<lambda>(r, d'). case r of
           Some err \<Rightarrow> Some (Some (err\<lparr>ed_WaitChain := ed_WaitChain err @ [waitFor_entry w p]\<rparr>), d')
         | None \<Rightarrow> doDetect_loop t s w (kept @ [p]) rest d'))"
  by (subst doDetect_loop.simps) (simp add: doDetect_def)

lemma answered_end:
  assumes "edges t d = E" "counted d" "lookup d w = Some kept"
    and kept: "\<forall>p\<in>set kept. \<not> isExpired p (entryTTL d) t \<and> tp_txn p \<noteq> s \<and> (tp_txn p, s) \<notin> E\<^sup>+"
  shows "answered t E s w d (doDetect_loop t s w kept [] d)"
proof -
  have none: "(w, s) \<notin> E\<^sup>+"
  proof
    assume "(w, s) \<in> E\<^sup>+"
    then obtain b where "(w, b) \<in> E" "b = s \<or> (b, s) \<in> E\<^sup>+"
      by (metis converse_tranclE)
    then show False
      using assms edges_from [of d w kept t] by auto
  qed
  show ?thesis
  proof (cases "kept = []")
    case True
    with assms have "searched t E w d (d\<lparr>waitForMap := AList.delete w (waitForMap d)\<rparr>)"
      by (intro searched_delete) simp_all
    with none True show ?thesis by (simp add: answered_def doDetect_loop_Nil)
  next
    case False
    with none assms(3) searched_refl [OF assms(1,2)] show ?thesis
      by (simp add: answered_def doDetect_loop_Nil)
  qed
qed

lemma answered_hit:
  assumes "edges t d = E" "counted d" "lookup d w = Some (kept @ p # rest)"
    and "\<not> isExpired p (entryTTL d) t" "tp_txn p = s"
  shows "answered t E s w d (doDetect_loop t s w kept (p # rest) d)"
  using assms searched_refl [OF assms(1,2)] edgesI [OF assms(3), of p t]
  by (simp add: answered_def doDetect_loop_Cons waitFor_entry_def)

lemma answered_next:
  assumes "acyclic E" and inv: "edges t d = E" "counted d" "lookup d w = Some (kept @ p # rest)"
    and p: "\<not> isExpired p (entryTTL d) t" "tp_txn p \<noteq> s"
    and sub: "answered t E s (tp_txn p) d (doDetect t s (tp_txn p) d)"
    and rest: "\<And>d1. \<lbrakk>searched t E w d d1; lookup d1 w = lookup d w; (tp_txn p, s) \<notin> E\<^sup>+\<rbrakk> \<Longrightarrow>
      answered t E s w d1 (doDetect_loop t s w (kept @ [p]) rest d1)"
  shows "answered t E s w d (doDetect_loop t s w kept (p # rest) d)"
proof -
  have e: "(w, tp_txn p) \<in> E"
    using inv(1) edgesI [OF inv(3), of p t] p by simp
  from sub obtain r d1 where nx: "doDetect t s (tp_txn p) d = Some (r, d1)"
    and s1: "searched t E (tp_txn p) d d1" and ne: "lookup d1 (tp_txn p) \<noteq> Some []"
    and r: "case r of None \<Rightarrow> (tp_txn p, s) \<notin> E\<^sup>+
       | Some e \<Rightarrow> wait_path E (tp_txn p) (rev (ed_WaitChain e)) s \<and> ed_WaitChain e \<noteq> []"
    unfolding answered_def by blast
  have "(tp_txn p, w) \<notin> E\<^sup>*"
    using e assms(1) by (meson acyclic_def rtrancl_into_trancl2)
  then have same: "lookup d1 w = lookup d w"
    using s1 by (simp add: searched_def)
  have s2: "searched t E w d d1"
    using e s1 ne by (rule searched_step)
  show ?thesis
  proof (cases r)
    case (Some err)
    then show ?thesis
      using p nx s2 r e same inv(3) by (simp add: answered_def doDetect_loop_Cons waitFor_entry_def)
  next
    case None
    with r have "answered t E s w d (doDetect_loop t s w (kept @ [p]) rest d1)"
      by (intro answered_trans [OF s2] rest [OF s2 same]) simp
    then show ?thesis using None p nx by (simp add: doDetect_loop_Cons)
  qed
qed

lemma answered_absent:
  "\<lbrakk>edges t d = E; counted d; lookup d w = None\<rbrakk> \<Longrightarrow> answered t E s w d (doDetect t s w d)"
proof -
  assume a: "edges t d = E" "counted d" "lookup d w = None"
  then have "(w, b) \<notin> E" for b by (auto simp: edges_def)
  then have "(w, s) \<notin> E\<^sup>+" by (meson converse_tranclE)
  then show ?thesis using a searched_refl [OF a(1,2)] by (simp add: answered_def doDetect_def)
qed

lemma doDetect_loop_correct:
  assumes "acyclic E" "finite E"
  shows "\<lbrakk>edges t d = E; counted d; lookup d w = Some (kept @ rest);
      \<forall>p\<in>set kept. \<not> isExpired p (entryTTL d) t \<and> tp_txn p \<noteq> s \<and> (tp_txn p, s) \<notin> E\<^sup>+\<rbrakk> \<Longrightarrow>
    answered t E s w d (doDetect_loop t s w kept rest d)"
proof (induction w arbitrary: kept rest d rule: wf_induct_rule [OF finite_acyclic_wf_converse [OF assms(2,1)]])
  case (1 w)
  from "1.prems" show ?case
  proof (induction rest arbitrary: kept d)
    case Nil
    then show ?case by (intro answered_end) simp_all
  next
    case (Cons p rest)
    note inv = Cons.prems(1-3)
    consider "isExpired p (entryTTL d) t"
      | "\<not> isExpired p (entryTTL d) t" "tp_txn p = s" | "\<not> isExpired p (entryTTL d) t" "tp_txn p \<noteq> s" by blast
    then show ?case
    proof cases
      case 1
      let ?d = "d\<lparr>waitForMap := AList.update w (kept @ rest) (waitForMap d), totalSize := totalSize d - 1\<rparr>"
      have s1: "searched t E w d ?d"
        using inv 1 refl by (rule searched_expire)
      then have "answered t E s w ?d (doDetect_loop t s w kept rest ?d)"
        using Cons.IH [of ?d kept] Cons.prems(4) by (simp add: searched_def)
      from answered_trans [OF s1 this] 1 show ?thesis by (simp add: doDetect_loop_Cons)
    next
      case 2
      with inv show ?thesis by (rule answered_hit)
    next
      case 3
      have e: "(w, tp_txn p) \<in> E"
        using inv(1) edgesI [OF inv(3), of p t] 3 by simp
      have "answered t E s (tp_txn p) d (doDetect t s (tp_txn p) d)"
      proof (cases "lookup d (tp_txn p)")
        case None
        with inv(1,2) show ?thesis by (rule answered_absent)
      next
        case (Some l)
        then show ?thesis using "1.IH" [of "tp_txn p" d "[]" l] e inv by (simp add: doDetect_def)
      qed
      with assms(1) inv 3 show ?thesis
      proof (rule answered_next)
        fix d1 assume "searched t E w d d1" "lookup d1 w = lookup d w" "(tp_txn p, s) \<notin> E\<^sup>+"
        then show "answered t E s w d1 (doDetect_loop t s w (kept @ [p]) rest d1)"
          using Cons.IH [of d1 "kept @ [p]"] inv(3) Cons.prems(4) 3 by (simp add: searched_def)
      qed
    qed
  qed
qed

lemma doDetect_correct:
  assumes "acyclic (edges t d)" "counted d"
  shows "answered t (edges t d) s w d (doDetect t s w d)"
  using answered_absent [OF refl assms(2)] doDetect_loop_correct [OF assms(1) finite_edges refl assms(2), of w "[]"]
  by (cases "lookup d w") (auto simp: doDetect_def)

section \<open>Invariant\<close>

text \<open>
  At the time of the last operation the waits that have not expired form an acyclic graph.
  Time only removes edges from it.
\<close>

definition det_inv :: "int \<Rightarrow> Detector \<Rightarrow> bool" where
  "det_inv t d \<longleftrightarrow> wf_det d \<and> acyclic (edges t d)"

lemma isExpired_later: "\<lbrakk>t \<le> t'; isExpired p ttl t\<rbrakk> \<Longrightarrow> isExpired p ttl t'"
  by (simp add: isExpired_def)

lemma edges_mono: "t \<le> t' \<Longrightarrow> edges t' d \<subseteq> edges t d"
  by (auto elim!: edgesE dest: isExpired_later intro: edgesI)

lemma det_inv_later: "\<lbrakk>det_inv t d; t \<le> t'\<rbrakk> \<Longrightarrow> det_inv t' d"
  by (auto simp: det_inv_def intro: acyclic_subset [OF _ edges_mono])

lemma det_inv_fewer:
  "\<lbrakk>det_inv t d; wf_det d'; edges t d' \<subseteq> edges t d\<rbrakk> \<Longrightarrow> det_inv t d'"
  by (auto simp: det_inv_def intro: acyclic_subset)

lemma det_inv_New: "det_inv t (NewDetector t ttl urgent interval)"
  by (simp add: det_inv_def wf_det_def counted_def total_def NewDetector_def edges_def acyclic_def)

definition unexpired :: "int \<Rightarrow> int \<Rightarrow> (u64 \<times> txnKeyHashPair list) list \<Rightarrow> (u64 \<times> txnKeyHashPair list) list" where
  "unexpired ttl t m =
     filter (\<lambda>e. snd e \<noteq> []) (map (\<lambda>e. (fst e, filter (\<lambda>p. \<not> isExpired p ttl t) (snd e))) m)"

lemma activeExpire_loop_fst: "fst (activeExpire_loop ttl t m sz) = unexpired ttl t m"
  by (induction ttl t m sz rule: activeExpire_loop.induct) (auto simp: unexpired_def Let_def case_prod_beta)

lemma unexpired_keys: "fst ` set (unexpired ttl t m) \<subseteq> fst ` set m"
  by (force simp: unexpired_def)

lemma unexpired_distinct: "distinct (map fst m) \<Longrightarrow> distinct (map fst (unexpired ttl t m))"
  by (induction m) (auto simp: unexpired_def, force)

lemma map_of_unexpired:
  assumes "distinct (map fst m)"
  shows "map_of (unexpired ttl t m) a = (case map_of m a of
      None \<Rightarrow> None
    | Some l \<Rightarrow> if filter (\<lambda>p. \<not> isExpired p ttl t) l = [] then None else Some (filter (\<lambda>p. \<not> isExpired p ttl t) l))"
  using assms
proof (induction m)
  case (Cons e m)
  have "map_of (unexpired ttl t m) (fst e) = None"
    using Cons.prems unexpired_keys [of ttl t m] by (auto simp: map_of_eq_None_iff)
  then show ?case
    using Cons by (cases e) (auto simp: unexpired_def)
qed (simp add: unexpired_def)

lemma activeExpire_loop_size:
  "activeExpire_loop ttl t m sz = (m', sz') \<Longrightarrow> sz' + of_nat (total m) = sz + of_nat (total m')"
proof (induction ttl t m sz arbitrary: m' sz' rule: activeExpire_loop.induct)
  case (2 ttl t txn l m sz)
  let ?l = "filter (\<lambda>p. \<not> isExpired p ttl t) l"
  obtain m1 sz1 where r: "activeExpire_loop ttl t m (sz - of_nat (length l - length ?l)) = (m1, sz1)"
    by fastforce
  have IH: "sz1 + of_nat (total m) = sz - of_nat (length l - length ?l) + of_nat (total m1)"
    using 2 r by blast
  have out: "m' = (if ?l = [] then m1 else (txn, ?l) # m1)" "sz' = sz1"
    using "2.prems" r by (auto simp: Let_def)
  have tot: "total m' = total m1 + length ?l"
    by (simp add: out total_def)
  have len: "of_nat (length l - length ?l) = (of_nat (length l) - of_nat (length ?l) :: u64)"
    using length_filter_le [of "\<lambda>p. \<not> isExpired p ttl t" l] by (simp only: of_nat_diff)
  have "sz1 + (of_nat (length l) + of_nat (total m)) = sz + (of_nat (total m1) + of_nat (length ?l))"
    using IH unfolding len by (simp add: algebra_simps)
  then show ?case
    by (simp only: out(2) tot) (simp add: total_def)
qed (simp add: total_def)

lemma edges_unexpired:
  assumes "distinct (map fst (waitForMap d))" "lookup d' = map_of (unexpired (entryTTL d) t (waitForMap d))"
    and "entryTTL d' = entryTTL d"
  shows "edges t d' = edges t d"
proof -
  have "(a, b) \<in> edges t d' \<longleftrightarrow> (a, b) \<in> edges t d" for a b
    using assms(2,3) map_of_unexpired [OF assms(1), of "entryTTL d" t a]
    by (cases "lookup d a") (auto simp: edges_def filter_empty_conv split: if_splits)
  then show ?thesis by auto
qed

lemma activeExpire_wf:
  assumes "wf_det d"
  shows "wf_det (activeExpire t d) \<and> edges t (activeExpire t d) = edges t d"
proof (cases "t - lastActiveExpire d > expireInterval d \<and> totalSize d \<ge> urgentSize d")
  case True
  obtain m sz where r: "activeExpire_loop (entryTTL d) t (waitForMap d) (totalSize d) = (m, sz)"
    by fastforce
  then have out: "activeExpire t d = d\<lparr>waitForMap := m, totalSize := sz, lastActiveExpire := t\<rparr>"
    using True by (simp add: activeExpire_def)
  have m: "m = unexpired (entryTTL d) t (waitForMap d)"
    using activeExpire_loop_fst [of "entryTTL d" t "waitForMap d" "totalSize d"] r by simp
  have dist: "distinct (map fst (waitForMap d))" and sz: "totalSize d = of_nat (total (waitForMap d))"
    using assms by (simp_all add: wf_det_def counted_def)
  have "sz = of_nat (total m)"
    using activeExpire_loop_size [OF r] sz by simp
  moreover have "map_of m a \<noteq> Some []" for a
    using map_of_unexpired [OF dist, of "entryTTL d" t a] by (simp add: m split: option.splits)
  moreover have "edges t (activeExpire t d) = edges t d"
    using dist by (rule edges_unexpired) (simp_all add: out m)
  ultimately show ?thesis
    using unexpired_distinct [OF dist, of "entryTTL d" t] by (simp add: out wf_det_def counted_def m)
qed (use assms in \<open>auto simp: activeExpire_def\<close>)

lemma edges_subset:
  assumes "\<And>a l'. lookup d' a = Some l' \<Longrightarrow> \<exists>l. lookup d a = Some l \<and> set l' \<subseteq> set l"
    and "entryTTL d' = entryTTL d"
  shows "edges t d' \<subseteq> edges t d"
proof
  fix e assume "e \<in> edges t d'"
  then obtain l p where l: "lookup d' (fst e) = Some l" and p: "p \<in> set l" "tp_txn p = snd e" "\<not> isExpired p (entryTTL d) t"
    using assms(2) by (cases e) (auto elim: edgesE)
  obtain l2 where "lookup d (fst e) = Some l2" "set l \<subseteq> set l2"
    using assms(1) [OF l] by (elim exE conjE) (rule that)
  then have "(fst e, tp_txn p) \<in> edges t d"
    using p(1,3) by (intro edgesI [where l = l2]) auto
  then show "e \<in> edges t d" using p(2) by simp
qed

lemma register_wf: "wf_det d \<Longrightarrow> wf_det (register now s w h ctx d)"
proof -
  assume wf: "wf_det d"
  have c: "distinct (map fst (waitForMap d))" "totalSize d = of_nat (total (waitForMap d))"
    using wf by (simp_all add: wf_det_def counted_def)
  show ?thesis
  proof (cases "lookup d s")
    case None
    then show ?thesis
      using wf c total_update_new [OF None]
      by (simp add: register_def wf_det_def counted_def distinct_update)
  next
    case (Some l)
    have "total (AList.update s (l @ [p]) (waitForMap d)) = total (waitForMap d) + 1" for p
      using total_update [OF c(1) Some, of "l @ [p]"] by simp
    then show ?thesis
      using wf c Some by (simp add: register_def wf_det_def counted_def distinct_update)
  qed
qed

lemma register_edges: "edges t (register now s w h ctx d) \<subseteq> insert (s, w) (edges t d)"
  by (cases "lookup d s") (auto simp: register_def edges_def Let_def split: if_splits)

lemma register_adds:
  assumes "\<And>p l. \<lbrakk>lookup d s = Some l; p \<in> set l; tp_txn p = w; tp_keyHash p = h\<rbrakk> \<Longrightarrow> \<not> isExpired p (entryTTL d) t"
    and "0 \<le> entryTTL d" "t \<le> now"
  shows "(s, w) \<in> edges t (register now s w h ctx d)"
  using assms by (cases "lookup d s") (auto simp: register_def edges_def Let_def isExpired_def)

lemma CleanUp_inv: "det_inv t d \<Longrightarrow> det_inv t (Detector_CleanUp txn d)"
proof (rule det_inv_fewer)
  assume "det_inv t d"
  then have c: "distinct (map fst (waitForMap d))" "totalSize d = of_nat (total (waitForMap d))"
    and ne: "\<forall>a. lookup d a \<noteq> Some []"
    by (simp_all add: det_inv_def wf_det_def counted_def)
  have "totalSize (Detector_CleanUp txn d) = of_nat (total (AList.delete txn (waitForMap d)))"
  proof (cases "lookup d txn")
    case None
    then show ?thesis using c by (simp add: Detector_CleanUp_def delete_absent)
  next
    case (Some l)
    have "totalSize d = of_nat (total (AList.delete txn (waitForMap d)) + length l)"
      using c(2) total_delete [OF c(1) Some] by simp
    then show ?thesis using Some by (simp add: Detector_CleanUp_def)
  qed
  then show "wf_det (Detector_CleanUp txn d)"
    using c ne by (simp add: wf_det_def counted_def Detector_CleanUp_def AList.distinct_delete)
  show "edges t (Detector_CleanUp txn d) \<subseteq> edges t d"
    by (auto simp: edges_def Detector_CleanUp_def split: if_splits)
qed

lemma CleanUpWaitFor_loop_sub: "set (CleanUpWaitFor_loop w h l) \<subseteq> set l" "length (CleanUpWaitFor_loop w h l) \<le> length l"
  by (induction l) auto

lemma CleanUpWaitFor_inv: "det_inv t d \<Longrightarrow> det_inv t (Detector_CleanUpWaitFor txn w h d)"
proof (cases "lookup d txn")
  case None
  then show "det_inv t d \<Longrightarrow> ?thesis" by (simp add: Detector_CleanUpWaitFor_def)
next
  case (Some l)
  let ?l = "CleanUpWaitFor_loop w h l"
  assume inv: "det_inv t d"
  then have c: "distinct (map fst (waitForMap d))" "totalSize d = of_nat (total (waitForMap d))"
    and ne: "\<forall>a. lookup d a \<noteq> Some []"
    by (simp_all add: det_inv_def wf_det_def counted_def)
  let ?m = "if ?l = [] then AList.delete txn (waitForMap d) else AList.update txn ?l (waitForMap d)"
  have out: "Detector_CleanUpWaitFor txn w h d =
     d\<lparr>totalSize := totalSize d - of_nat (length l - length ?l), waitForMap := ?m\<rparr>"
    using Some by (simp add: Detector_CleanUpWaitFor_def Let_def)
  have "total ?m + length l = total (waitForMap d) + length ?l"
    using total_delete [OF c(1) Some] total_update [OF c(1) Some, of ?l] by auto
  then have "total ?m + (length l - length ?l) = total (waitForMap d)"
    using CleanUpWaitFor_loop_sub(2) [of w h l] by linarith
  then have "totalSize d = of_nat (total ?m + (length l - length ?l))"
    using c(2) by simp
  then have "totalSize d - of_nat (length l - length ?l) = of_nat (total ?m)"
    by (simp only: of_nat_add) simp
  moreover have "distinct (map fst ?m)" "map_of ?m a \<noteq> Some []" for a
    using c(1) ne by (auto simp: distinct_update AList.distinct_delete)
  ultimately have "wf_det (Detector_CleanUpWaitFor txn w h d)"
    unfolding out wf_det_def counted_def by simp
  moreover have "edges t (Detector_CleanUpWaitFor txn w h d) \<subseteq> edges t d"
  proof (rule edges_subset)
    fix a l' assume "lookup (Detector_CleanUpWaitFor txn w h d) a = Some l'"
    then show "\<exists>la. lookup d a = Some la \<and> set l' \<subseteq> set la"
      using Some CleanUpWaitFor_loop_sub(1) [of w h l] unfolding out by (auto split: if_splits)
  qed (simp add: out)
  ultimately show ?thesis by (rule det_inv_fewer [OF inv])
qed

lemma wait_path_trancl: "\<lbrakk>wait_path E a es b; es \<noteq> []\<rbrakk> \<Longrightarrow> (a, b) \<in> E\<^sup>+"
proof (induction es arbitrary: a)
  case (Cons e es)
  then show ?case by (cases "es = []") (auto intro: trancl_into_trancl2)
qed simp

lemma wait_path_append: "wait_path E a (es @ fs) c \<longleftrightarrow> (\<exists>b. wait_path E a es b \<and> wait_path E b fs c)"
  by (induction es arbitrary: a) auto

lemma wait_path_mono: "\<lbrakk>wait_path E a es b; E \<subseteq> F\<rbrakk> \<Longrightarrow> wait_path F a es b"
  by (induction es arbitrary: a) auto

lemma Detect_result:
  assumes inv: "det_inv now d" and "now \<le> now2" "s \<noteq> w"
  shows "\<exists>r d'. Detector_Detect now now2 s w h ctx d = Some (r, d') \<and> det_inv now2 d' \<and>
     (r = None \<longleftrightarrow> (w, s) \<notin> (edges now d)\<^sup>+) \<and>
     (\<forall>e. r = Some e \<longrightarrow> wait_path (insert (s, w) (edges now d)) w (ed_WaitChain e) w)"
proof -
  let ?d = "activeExpire now d" and ?E = "edges now d"
  have exp: "wf_det ?d" "edges now ?d = ?E"
    using inv activeExpire_wf [of d now] by (simp_all add: det_inv_def)
  have "answered now ?E s w ?d (doDetect now s w ?d)"
    using doDetect_correct [of now ?d s w] exp inv by (simp add: det_inv_def wf_det_def)
  then obtain r d' where det: "doDetect now s w ?d = Some (r, d')"
    and sr: "searched now ?E w ?d d'" "lookup d' w \<noteq> Some []"
    and r: "case r of None \<Rightarrow> (w, s) \<notin> ?E\<^sup>+
       | Some e \<Rightarrow> wait_path ?E w (rev (ed_WaitChain e)) s \<and> ed_WaitChain e \<noteq> []"
    unfolding answered_def by blast
  have "lookup d' a \<noteq> Some []" for a
    using sr exp(1) by (cases "a = w") (auto simp: searched_def wf_det_def)
  then have d': "wf_det d'" "edges now d' = ?E"
    using sr(1) by (simp_all add: searched_def wf_det_def)
  show ?thesis
  proof (cases r)
    case (Some e)
    have "(w, s) \<in> ?E\<^sup>+"
      using r Some wait_path_trancl [of ?E w "rev (ed_WaitChain e)" s] by simp
    moreover have "wait_path (insert (s, w) ?E) w (rev (ed_WaitChain e)) s"
      using r Some by (auto intro: wait_path_mono)
    moreover have "det_inv now2 d'"
      using d' inv det_inv_later [OF _ assms(2)] by (simp add: det_inv_def)
    ultimately show ?thesis
      using det Some by (auto simp: Detector_Detect_def wait_path_append)
  next
    case None
    let ?r = "register now2 s w h ctx d'"
    have "edges now ?r \<subseteq> insert (s, w) ?E"
      using register_edges [of now now2 s w h ctx d'] d'(2) by simp
    moreover have "acyclic (insert (s, w) ?E)"
      using r None inv assms(3) by (auto simp: acyclic_insert det_inv_def rtrancl_eq_or_trancl)
    ultimately have "det_inv now ?r"
      using register_wf [OF d'(1)] by (auto simp: det_inv_def intro: acyclic_subset)
    then have "det_inv now2 ?r"
      using assms(2) by (rule det_inv_later)
    then show ?thesis
      using det None r by (simp add: Detector_Detect_def)
  qed
qed

inductive det_step :: "int \<times> Detector \<Rightarrow> int \<times> Detector \<Rightarrow> bool" where
  detect: "\<lbrakk>t \<le> now; now \<le> now2; s \<noteq> w; Detector_Detect now now2 s w h ctx d = Some (r, d')\<rbrakk> \<Longrightarrow>
    det_step (t, d) (now2, d')"
| cleanup: "det_step (t, d) (t, Detector_CleanUp txn d)"
| cleanupWaitFor: "det_step (t, d) (t, Detector_CleanUpWaitFor txn w h d)"

lemma det_step_inv: "\<lbrakk>det_step x y; det_inv (fst x) (snd x)\<rbrakk> \<Longrightarrow> det_inv (fst y) (snd y)"
proof (induction rule: det_step.induct)
  case (detect t now now2 s w h ctx d r d')
  then have "det_inv now d" by (auto intro: det_inv_later)
  from Detect_result [OF this detect(2,3), of h ctx] detect(4) show ?case by auto
qed (simp_all add: CleanUp_inv CleanUpWaitFor_inv)

lemma det_reach_inv:
  "det_step\<^sup>*\<^sup>* (t0, NewDetector t0 ttl urgent interval) x \<Longrightarrow> det_inv (fst x) (snd x)"
  by (induction rule: rtranclp_induct) (auto intro: det_inv_New det_step_inv)

section \<open>Properties\<close>



text \<open>
  C34: whatever sequence of detections (no transaction waiting for itself, the
  clock not running backwards) and clean-ups the detector has processed, its graph of unexpired
  waits is acyclic, its entries are unique and not empty, \<^verbatim>\<open>totalSize\<close> is the number of
  waits it holds, and the recursive search ends.
\<close>

theorem detector_invariant:
  assumes "det_step\<^sup>*\<^sup>* (t0, NewDetector t0 ttl urgent interval) (t, d)" "t \<le> now"
  shows "acyclic (edges now d) \<and> wf_det d \<and> doDetect now source waitFor d \<noteq> None"
proof -
  have "det_inv now d"
    using det_reach_inv [OF assms(1)] assms(2) by (auto intro: det_inv_later)
  then show ?thesis
    using doDetect_correct [of now d source waitFor] by (auto simp: det_inv_def wf_det_def answered_def)
qed

definition one_wait :: Detector where
  "one_wait = snd (the (Detector_Detect 0 0 1 2 9 no_diagnostics (NewDetectorServer 0)))"

lemmas one_wait_simps =
  NewDetectorServer_def NewDetector_def Detector_Detect_def doDetect_def activeExpire_def register_def

lemma one_wait_eq:
  "Detector_Detect 0 0 1 2 9 no_diagnostics (NewDetectorServer 0) = Some (None, one_wait)"
  "one_wait = (NewDetectorServer 0)\<lparr>totalSize := 1,
     waitForMap := [(1, [\<lparr>tp_txn = 2, tp_keyHash = 9, registerTime = 0, diagCtx = no_diagnostics\<rparr>])]\<rparr>"
  by (simp_all add: one_wait_def one_wait_simps)

lemma one_wait_reach: "det_step\<^sup>*\<^sup>* (0, NewDetectorServer 0) (0, one_wait)"
  using det_step.detect [OF order.refl order.refl _ one_wait_eq(1)] by auto

theorem detector_invariant_witness:
  "acyclic (edges 4 one_wait) \<and> wf_det one_wait \<and> doDetect 4 2 1 one_wait \<noteq> None"
  by (rule detector_invariant [OF one_wait_reach [unfolded NewDetectorServer_def]]) simp


end
