(* ===== verification/Mvcc_Store.thy ===== *)
theory Mvcc_Store
  imports Mvcc_Db Detector
begin

text \<open>
  The transactional store \<^verbatim>\<open>MVCCStore\<close> of \<^verbatim>\<open>store/mockstore/unistore/tikv/mvcc.go\<close>: Percolator
  transactions, optimistic and pessimistic, over badger and the lock store. Every request
  handler is a function of the store that returns its result and the store it leaves. A
  handler holds the latches of its keys from its first read to its last write, which is
  what makes it one step of the model. Decoding a lock that cannot be decoded, indexing out of
  range and \<^verbatim>\<open>log.Fatal\<close> are the error \<open>Panic\<close>.

  Parameters of the model, fields of the environment: badger, the lock store, the key
  fingerprint (go-farm), the physical part of a timestamp (client-go), the answer of PD to a
  timestamp request, the conversion of rows in the old format, the configured wait time, and
  the clock.
\<close>

section \<open>State and requests\<close>

record ('db, 'ls, 'h) mvcc_env =
  env_badger :: "'db badger_ops"
  env_locks :: "('ls, 'h) lock_ops"
  Fingerprint64 :: "bytes \<Rightarrow> u64"
  ExtractPhysical :: "u64 \<Rightarrow> u64"
  pd_GetTS :: "kv_error + i64 \<times> i64"
  encodeFromOldRow :: "bytes \<Rightarrow> kv_error + bytes"
  WaitForLockTimeout :: i64
  clock_now :: int

record ('db, 'ls) MVCCStore =
  store_db :: 'db
  lockStore :: 'ls
  latestTS :: u64
  writer_latestTS :: u64
  lockWaiterManager :: Manager
  sendCh :: "DeadlockRequest list"
  safePoint :: u64
  region_diff :: i64

datatype isolation = SI | RC | RCCheckTS

record requestCtx =
  RawStart :: bytes
  RawEnd :: bytes
  ResolvedLocks :: "u64 list"
  CommittedLocks :: "u64 list"
  IsolationLevel :: isolation

record Mutation =
  m_Op :: pb_op
  m_Key :: bytes
  m_Value :: bytes
  m_Assertion :: assertion

definition isSnapshotIsolation :: "requestCtx \<Rightarrow> bool" where
  "isSnapshotIsolation req \<longleftrightarrow> IsolationLevel req = SI"

definition isRcCheckTSIsolationLevel :: "requestCtx \<Rightarrow> bool" where
  "isRcCheckTSIsolationLevel req \<longleftrightarrow> IsolationLevel req = RCCheckTS"

definition getDBReader :: "requestCtx \<Rightarrow> DBReader" where
  "getDBReader req =
     \<lparr>rd_StartKey = RawStart req, rd_EndKey = RawEnd req, rd_RcCheckTS = isRcCheckTSIsolationLevel req\<rparr>"

section \<open>Keys and hashes\<close>

fun dedup :: "u64 list \<Rightarrow> u64 list" where
  "dedup (x # y # xs) = (if x = y then dedup (y # xs) else x # dedup (y # xs))"
| "dedup xs = xs"

definition sortAndDedupHashVals :: "u64 list \<Rightarrow> u64 list" where
  "sortAndDedupHashVals hashVals = (if length hashVals > 1 then dedup (sort hashVals) else hashVals)"

definition keysToHashVals :: "('db, 'ls, 'h) mvcc_env \<Rightarrow> bytes list \<Rightarrow> u64 list" where
  "keysToHashVals env keys = sortAndDedupHashVals (map (Fingerprint64 env) keys)"

definition mutationsToHashVals :: "('db, 'ls, 'h) mvcc_env \<Rightarrow> Mutation list \<Rightarrow> u64 list" where
  "mutationsToHashVals env mutations = sortAndDedupHashVals (map (\<lambda>m. Fingerprint64 env (m_Key m)) mutations)"

definition sortMutations :: "Mutation list \<Rightarrow> Mutation list" where
  "sortMutations mutations = sort_key m_Key mutations"

definition sortKeys :: "bytes list \<Rightarrow> bytes list" where
  "sortKeys keys = sort keys"

section \<open>Reading and writing\<close>

definition updateLatestTS :: "u64 \<Rightarrow> ('db, 'ls) MVCCStore \<Rightarrow> ('db, 'ls) MVCCStore" where
  "updateLatestTS ts st = (if latestTS st < ts then st\<lparr>latestTS := ts\<rparr> else st)"

definition NewWriteBatch :: "u64 \<Rightarrow> u64 \<Rightarrow> ('db, 'ls) MVCCStore \<Rightarrow> writeBatch \<times> ('db, 'ls) MVCCStore" where
  "NewWriteBatch startTS commitTS st =
     (let (wb, ts) = dbWriter_NewWriteBatch startTS commitTS (writer_latestTS st)
      in (wb, st\<lparr>writer_latestTS := ts\<rparr>))"

definition Write ::
  "('db, 'ls, 'h) mvcc_env \<Rightarrow> writeBatch \<Rightarrow> ('db, 'ls) MVCCStore \<Rightarrow> kv_error option \<times> ('db, 'ls) MVCCStore" where
  "Write env wb st =
     (let (err, db, ls) = dbWriter_Write (env_badger env) (env_locks env) wb (store_db st, lockStore st)
      in (err, st\<lparr>store_db := db, lockStore := ls\<rparr>))"

definition wakeUp ::
  "u64 \<Rightarrow> u64 \<Rightarrow> u64 list \<Rightarrow> ('db, 'ls) MVCCStore \<Rightarrow> kv_error option \<times> ('db, 'ls) MVCCStore" where
  "wakeUp startTS commitTS hashVals st =
     (case WakeUp (lockWaiterManager st) startTS commitTS hashVals of
        None \<Rightarrow> (Some Panic, st)
      | Some mgr \<Rightarrow> (None, st\<lparr>lockWaiterManager := mgr\<rparr>))"

definition detect_cleanUp :: "u64 \<Rightarrow> ('db, 'ls) MVCCStore \<Rightarrow> ('db, 'ls) MVCCStore" where
  "detect_cleanUp startTS st = st\<lparr>sendCh := DetectorClient_CleanUp startTS (sendCh st)\<rparr>"

definition getLock :: "('db, 'ls, 'h) mvcc_env \<Rightarrow> ('db, 'ls) MVCCStore \<Rightarrow> bytes \<Rightarrow> kv_error + Lock option" where
  "getLock env st key =
     (case ls_Get (env_locks env) (lockStore st) key of
        [] \<Rightarrow> Inr None
      | b # bs \<Rightarrow> (case DecodeLock (b # bs) of None \<Rightarrow> Inl Panic | Some lock \<Rightarrow> Inr (Some lock)))"

definition checkConflictInLockStore ::
  "('db, 'ls, 'h) mvcc_env \<Rightarrow> ('db, 'ls) MVCCStore \<Rightarrow> Mutation \<Rightarrow> u64 \<Rightarrow> kv_error + Lock option" where
  "checkConflictInLockStore env st mutation startTS =
     res_bind (getLock env st (m_Key mutation)) (\<lambda>l. case l of
         None \<Rightarrow> Inr None
       | Some lock \<Rightarrow>
           if StartTS lock = startTS then Inr (Some lock)
           else Inl (BuildLockErr (m_Key mutation) lock))"

definition getDBItems ::
  "('db, 'ls, 'h) mvcc_env \<Rightarrow> ('db, 'ls) MVCCStore \<Rightarrow> Mutation list \<Rightarrow> kv_error + item option list" where
  "getDBItems env st mutations =
     bg_multiGet (env_badger env) (store_db st) (bg_newReadTS (env_badger env)) (map m_Key mutations)"

record extraTxnStatus =
  ets_commitTS :: u64
  isRollback :: bool

definition isOpLockCommitted :: "extraTxnStatus \<Rightarrow> bool" where
  "isOpLockCommitted s \<longleftrightarrow> ets_commitTS s > 0"

definition checkExtraTxnStatus ::
  "('db, 'ls, 'h) mvcc_env \<Rightarrow> ('db, 'ls) MVCCStore \<Rightarrow> bytes \<Rightarrow> u64 \<Rightarrow> extraTxnStatus" where
  "checkExtraTxnStatus env st key startTS =
     (case bg_get (env_badger env) (store_db st) (bg_newReadTS (env_badger env)) (EncodeExtraTxnStatusKey key startTS) of
        Inl _ \<Rightarrow> \<lparr>ets_commitTS = 0, isRollback = False\<rparr>
      | Inr None \<Rightarrow> \<lparr>ets_commitTS = 0, isRollback = False\<rparr>
      | Inr (Some it) \<Rightarrow>
          if DBUserMeta_CommitTS (item_UserMeta it) = 0 then \<lparr>ets_commitTS = 0, isRollback = True\<rparr>
          else \<lparr>ets_commitTS = DBUserMeta_CommitTS (item_UserMeta it), isRollback = False\<rparr>)"

fun checkCommitted_loop :: "bytes \<Rightarrow> u64 \<Rightarrow> item list \<Rightarrow> u64" where
  "checkCommitted_loop key startTS [] = 0"
| "checkCommitted_loop key startTS (it # its) =
     (if item_Key it \<noteq> key then 0
      else if DBUserMeta_StartTS (item_UserMeta it) = startTS then DBUserMeta_CommitTS (item_UserMeta it)
      else checkCommitted_loop key startTS its)"

definition checkCommitted ::
  "('db, 'ls, 'h) mvcc_env \<Rightarrow> requestCtx \<Rightarrow> ('db, 'ls) MVCCStore \<Rightarrow> bytes \<Rightarrow> u64 \<Rightarrow> kv_error + u64" where
  "checkCommitted env req st key startTS =
     (let bg = env_badger env in
      res_bind (bg_get bg (store_db st) (bg_newReadTS bg) key) (\<lambda>x. case x of
          None \<Rightarrow> Inr 0
        | Some it \<Rightarrow>
            if DBUserMeta_StartTS (item_UserMeta it) = startTS then Inr (DBUserMeta_CommitTS (item_UserMeta it))
            else Inr (checkCommitted_loop key startTS
              (bg_iter bg (store_db st) (bg_newReadTS bg) (NewIterator False True (getDBReader req)) key))))"

section \<open>Pessimistic locks\<close>

record PessimisticLockRequest =
  pl_Mutations :: "Mutation list"
  pl_PrimaryLock :: bytes
  pl_StartVersion :: u64
  pl_ForUpdateTs :: u64
  pl_LockTtl :: u64
  pl_IsFirstLock :: bool
  pl_WaitTimeout :: i64
  pl_Force :: bool
  pl_ReturnValues :: bool
  pl_CheckExistence :: bool
  pl_LockOnlyIfExists :: bool
  pl_ResourceGroupTag :: bytes

record PessimisticLockResponse =
  pr_Value :: bytes
  pr_CommitTs :: u64
  pr_Values :: "bytes option list"
  pr_NotFounds :: "bool list"

definition normalizeWaitTime :: "('db, 'ls, 'h) mvcc_env \<Rightarrow> i64 \<Rightarrow> i64" where
  "normalizeWaitTime env lockWaitTime =
     (if sint lockWaitTime > sint (WaitForLockTimeout env) then WaitForLockTimeout env
      else if lockWaitTime = 0 then WaitForLockTimeout env else lockWaitTime) * 1000000"

definition handleCheckPessimisticErr ::
  "('db, 'ls, 'h) mvcc_env \<Rightarrow> u64 \<Rightarrow> kv_error \<Rightarrow> bool \<Rightarrow> i64 \<Rightarrow> bytes \<Rightarrow> bytes \<Rightarrow> ('db, 'ls) MVCCStore \<Rightarrow>
   waiter_id option \<times> ('db, 'ls) MVCCStore" where
  "handleCheckPessimisticErr env startTS err isFirstLock lockWaitTime key resourceGroupTag st =
     (case err of
        ErrLocked lockedKey lock \<Rightarrow>
          if lockWaitTime \<noteq> LockNoWait
          then let keyHash = Fingerprint64 env lockedKey;
                   (waiter, mgr) = NewWaiter (clock_now env) (lockWaiterManager st) startTS (StartTS lock) keyHash
                     (normalizeWaitTime env lockWaitTime);
                   st = st\<lparr>lockWaiterManager := mgr\<rparr>;
                   st = (if \<not> isFirstLock
                         then st\<lparr>sendCh := DetectorClient_Detect startTS (StartTS lock) keyHash key resourceGroupTag (sendCh st)\<rparr>
                         else st)
               in (Some waiter, st)
          else (None, st)
      | _ \<Rightarrow> (None, st))"

definition doesNeedLock ::
  "('db, 'ls, 'h) mvcc_env \<Rightarrow> item option \<Rightarrow> PessimisticLockRequest \<Rightarrow> kv_error + bool" where
  "doesNeedLock env it req =
     (if pl_LockOnlyIfExists req
      then case it of
             None \<Rightarrow> Inr False
           | Some i \<Rightarrow> res_bind (bg_value (env_badger env) i) (\<lambda>val. Inr (val \<noteq> []))
      else Inr True)"

definition buildPessimisticLock ::
  "('db, 'ls, 'h) mvcc_env \<Rightarrow> Mutation \<Rightarrow> item option \<Rightarrow> PessimisticLockRequest \<Rightarrow> kv_error + Lock option" where
  "buildPessimisticLock env m it req =
     res_bind (case it of
         None \<Rightarrow> Inr ()
       | Some i \<Rightarrow>
           if \<not> pl_Force req \<and> DBUserMeta_CommitTS (item_UserMeta i) > pl_ForUpdateTs req
           then Inl (ErrConflict (pl_StartVersion req) (DBUserMeta_StartTS (item_UserMeta i))
                      (DBUserMeta_CommitTS (item_UserMeta i)) (item_Key i) WC_PessimisticRetry)
           else if m_Assertion m = Assertion_NotExist \<and> \<not> IsEmpty i then Inl (ErrKeyAlreadyExists (m_Key m))
           else Inr ()) (\<lambda>_.
     res_bind (doesNeedLock env it req) (\<lambda>ok.
       if \<not> ok then Inr None
       else Inr (Some (zero_lock\<lparr>StartTS := pl_StartVersion req, ForUpdateTS := pl_ForUpdateTs req,
              Op := op_code Op_PessimisticLock, TTL := ucast (pl_LockTtl req),
              PrimaryLen := of_nat (length (pl_PrimaryLock req)), Primary := pl_PrimaryLock req\<rparr>))))"

text \<open>
  The first loop of \<^verbatim>\<open>PessimisticLock\<close> ends in an error to wait for, in another error, or tells
  whether the request is a duplicate.
\<close>

datatype lock_check = Check_Conflict kv_error Mutation | Check_Fail kv_error | Check_Dup bool

fun PessimisticLock_check ::
  "('db, 'ls, 'h) mvcc_env \<Rightarrow> PessimisticLockRequest \<Rightarrow> ('db, 'ls) MVCCStore \<Rightarrow> Mutation list \<Rightarrow> lock_check" where
  "PessimisticLock_check env req st [] = Check_Dup False"
| "PessimisticLock_check env req st (m # ms) =
     (let next = (if m_Key m = pl_PrimaryLock req
                  then let txnStatus = checkExtraTxnStatus env st (m_Key m) (pl_StartVersion req)
                    in if isRollback txnStatus then Check_Fail ErrAlreadyRollback
                       else if isOpLockCommitted txnStatus then Check_Dup True
                       else PessimisticLock_check env req st ms
                  else PessimisticLock_check env req st ms)
      in case checkConflictInLockStore env st m (pl_StartVersion req) of
           Inl e \<Rightarrow> Check_Conflict e m
         | Inr None \<Rightarrow> next
         | Inr (Some lock) \<Rightarrow>
             if Op lock \<noteq> op_code Op_PessimisticLock then Check_Fail (ErrMessage ''lock type not match'')
             else if ForUpdateTS lock \<ge> pl_ForUpdateTs req then Check_Dup True
             else next)"

fun PessimisticLock_build ::
  "('db, 'ls, 'h) mvcc_env \<Rightarrow> PessimisticLockRequest \<Rightarrow> (Mutation \<times> item option) list \<Rightarrow> writeBatch \<Rightarrow> kv_error + writeBatch" where
  "PessimisticLock_build env req [] wb = Inr wb"
| "PessimisticLock_build env req ((m, it) # ms) wb =
     res_bind (buildPessimisticLock env m it req) (\<lambda>lock.
       PessimisticLock_build env req ms
         (case lock of None \<Rightarrow> wb | Some l \<Rightarrow> wb_PessimisticLock (m_Key m) l wb))"

fun PessimisticLock_values ::
  "('db, 'ls, 'h) mvcc_env \<Rightarrow> bool \<Rightarrow> item option list \<Rightarrow> kv_error + (bytes option list \<times> bool list)" where
  "PessimisticLock_values env returnValues [] = Inr ([], [])"
| "PessimisticLock_values env returnValues (it # its) =
     res_bind (case it of
         None \<Rightarrow> Inr (None, True)
       | Some i \<Rightarrow> res_bind (bg_value (env_badger env) i) (\<lambda>val. Inr (Some val, val = []))) (\<lambda>(v, nf).
     res_bind (PessimisticLock_values env returnValues its) (\<lambda>(vs, nfs).
       Inr (if returnValues then v # vs else vs, nf # nfs)))"

definition PessimisticLock_response ::
  "('db, 'ls, 'h) mvcc_env \<Rightarrow> PessimisticLockRequest \<Rightarrow> item option list \<Rightarrow> kv_error + PessimisticLockResponse" where
  "PessimisticLock_response env req items =
     res_bind (if pl_Force req
         then case items of
                Some i # _ \<Rightarrow> res_bind (bg_value (env_badger env) i) (\<lambda>val.
                                Inr (val, DBUserMeta_CommitTS (item_UserMeta i)))
              | _ \<Rightarrow> Inl Panic
         else Inr ([], 0)) (\<lambda>(val, ts).
     res_bind (if pl_ReturnValues req \<or> pl_CheckExistence req
         then PessimisticLock_values env (pl_ReturnValues req) items else Inr ([], [])) (\<lambda>(vs, nfs).
       Inr \<lparr>pr_Value = val, pr_CommitTs = ts, pr_Values = vs, pr_NotFounds = nfs\<rparr>))"

definition PessimisticLock ::
  "('db, 'ls, 'h) mvcc_env \<Rightarrow> PessimisticLockRequest \<Rightarrow> ('db, 'ls) MVCCStore \<Rightarrow>
   (waiter_id option \<times> (kv_error + PessimisticLockResponse)) \<times> ('db, 'ls) MVCCStore" where
  "PessimisticLock env req st =
     (let mutations = (if pl_ReturnValues req then pl_Mutations req else sortMutations (pl_Mutations req))
      in if pl_LockOnlyIfExists req \<and> \<not> pl_ReturnValues req
      then ((None, Inl (ErrMessage ''LockOnlyIfExists is set for LockKeys but ReturnValues is not set'')), st)
      else let (batch, st) = NewWriteBatch (pl_StartVersion req) 0 st
      in case PessimisticLock_check env req st mutations of
           Check_Conflict e m \<Rightarrow>
             let (waiter, st) = handleCheckPessimisticErr env (pl_StartVersion req) e (pl_IsFirstLock req)
                   (pl_WaitTimeout req) (m_Key m) (pl_ResourceGroupTag req) st
             in ((waiter, Inl e), st)
         | Check_Fail e \<Rightarrow> ((None, Inl e), st)
         | Check_Dup dup \<Rightarrow>
             (case getDBItems env st mutations of
                Inl e \<Rightarrow> ((None, Inl e), st)
              | Inr items \<Rightarrow>
                  let (err, st) =
                    (if dup then (None, st)
                     else case PessimisticLock_build env req (zip mutations items) batch of
                            Inl e \<Rightarrow> (Some e, st)
                          | Inr wb \<Rightarrow> Write env wb st)
                  in case err of
                       Some e \<Rightarrow> ((None, Inl e), st)
                     | None \<Rightarrow> ((None, PessimisticLock_response env req items), st)))"

fun PessimisticRollback_loop ::
  "('db, 'ls, 'h) mvcc_env \<Rightarrow> u64 \<Rightarrow> u64 \<Rightarrow> ('db, 'ls) MVCCStore \<Rightarrow> bytes list \<Rightarrow> kv_error + bytes list" where
  "PessimisticRollback_loop env startTS forUpdateTs st [] = Inr []"
| "PessimisticRollback_loop env startTS forUpdateTs st (k # ks) =
     res_bind (getLock env st k) (\<lambda>l.
     res_bind (PessimisticRollback_loop env startTS forUpdateTs st ks) (\<lambda>rest.
       case l of
         None \<Rightarrow> Inr rest
       | Some lock \<Rightarrow>
           if Op lock = op_code Op_PessimisticLock \<and> StartTS lock = startTS \<and> ForUpdateTS lock \<le> forUpdateTs
           then Inr (k # rest) else Inr rest))"

definition PessimisticRollback ::
  "('db, 'ls, 'h) mvcc_env \<Rightarrow> bytes list \<Rightarrow> u64 \<Rightarrow> u64 \<Rightarrow> ('db, 'ls) MVCCStore \<Rightarrow> kv_error option \<times> ('db, 'ls) MVCCStore" where
  "PessimisticRollback env reqKeys startTS forUpdateTs st =
     (let keys = sortKeys reqKeys; hashVals = keysToHashVals env keys
      in case PessimisticRollback_loop env startTS forUpdateTs st keys of
           Inl e \<Rightarrow> (Some e, st)
         | Inr ks \<Rightarrow>
             let (err, st) =
                   (if ks = [] then (None, st)
                    else let (batch, st) = NewWriteBatch startTS 0 st
                      in Write env (fold wb_PessimisticRollback ks batch) st)
             in case wakeUp startTS 0 hashVals st of
                  (Some e, st) \<Rightarrow> (Some e, st)
                | (None, st) \<Rightarrow> (err, detect_cleanUp startTS st))"

section \<open>Status of transactions\<close>

definition TxnHeartBeat ::
  "('db, 'ls, 'h) mvcc_env \<Rightarrow> bytes \<Rightarrow> u64 \<Rightarrow> u64 \<Rightarrow> ('db, 'ls) MVCCStore \<Rightarrow> (kv_error + u64) \<times> ('db, 'ls) MVCCStore" where
  "TxnHeartBeat env primaryLock startVersion adviseLockTtl st =
     (case getLock env st primaryLock of
        Inl e \<Rightarrow> (Inl e, st)
      | Inr None \<Rightarrow> (Inl (ErrMessage ''lock doesn't exists''), st)
      | Inr (Some lock) \<Rightarrow>
          if StartTS lock = startVersion
          then if Primary lock \<noteq> primaryLock then (Inl (ErrMessage ''heartbeat on non-primary key''), st)
               else if TTL lock < ucast adviseLockTtl
               then let lock = lock\<lparr>TTL := ucast adviseLockTtl\<rparr>;
                        (batch, st) = NewWriteBatch startVersion 0 st
                    in case Write env (wb_PessimisticLock primaryLock lock batch) st of
                         (Some e, st) \<Rightarrow> (Inl e, st)
                       | (None, st) \<Rightarrow> (Inr (ucast (TTL lock)), st)
               else (Inr (ucast (TTL lock)), st)
          else (Inl (ErrMessage ''lock doesn't exists''), st))"

datatype txn_action =
    Action_NoAction
  | Action_TTLExpireRollback
  | Action_LockNotExistRollback
  | Action_MinCommitTSPushed
  | Action_TTLExpirePessimisticRollback
  | Action_LockNotExistDoNothing

record TxnStatus =
  ts_commitTS :: u64
  ts_action :: txn_action
  ts_lockInfo :: "LockInfo option"

record CheckTxnStatusRequest =
  ct_PrimaryKey :: bytes
  ct_LockTs :: u64
  ct_CallerStartTs :: u64
  ct_CurrentTs :: u64
  ct_RollbackIfNotExist :: bool
  ct_ForceSyncCommit :: bool
  ct_ResolvingPessimisticLock :: bool

definition maxSystemTS :: u64 where "maxSystemTS = - 1"

definition txn_status :: "u64 \<Rightarrow> txn_action \<Rightarrow> LockInfo option \<Rightarrow> TxnStatus" where
  "txn_status commitTS action lockInfo = \<lparr>ts_commitTS = commitTS, ts_action = action, ts_lockInfo = lockInfo\<rparr>"

text \<open>\<^verbatim>\<open>CheckTxnStatus\<close> when the lock of the transaction is found.\<close>

definition CheckTxnStatus_locked ::
  "('db, 'ls, 'h) mvcc_env \<Rightarrow> CheckTxnStatusRequest \<Rightarrow> Lock \<Rightarrow> writeBatch \<Rightarrow> ('db, 'ls) MVCCStore \<Rightarrow>
   (kv_error + TxnStatus) \<times> ('db, 'ls) MVCCStore" where
  "CheckTxnStatus_locked env req lock batch st =
     (let write = (\<lambda>wb status. case Write env wb st of
                     (Some e, st) \<Rightarrow> (Inl e, st) | (None, st) \<Rightarrow> (Inr status, st))
      in if ct_PrimaryKey req \<noteq> Primary lock then (Inl (ErrPrimaryMismatch (ct_PrimaryKey req) lock), st)
      else if UseAsyncCommit lock \<and> \<not> ct_ForceSyncCommit req
      then (Inr (txn_status 0 Action_NoAction (Some (ToLockInfo lock (ct_PrimaryKey req)))), st)
      else if ExtractPhysical env (StartTS lock) + ucast (TTL lock) < ExtractPhysical env (ct_CurrentTs req)
      then if ct_ResolvingPessimisticLock req \<and> Op lock = op_code Op_PessimisticLock
           then write (wb_PessimisticRollback (ct_PrimaryKey req) batch)
                  (txn_status 0 Action_TTLExpirePessimisticRollback None)
           else write (wb_Rollback (ct_PrimaryKey req) True batch) (txn_status 0 Action_TTLExpireRollback None)
      else if ct_CallerStartTs req = maxSystemTS
      then (Inr (txn_status 0 Action_MinCommitTSPushed (Some (ToLockInfo lock (ct_PrimaryKey req)))), st)
      else if MinCommitTS lock > 0 \<and> \<not> UseAsyncCommit lock
      then if MinCommitTS lock < ct_CallerStartTs req + 1
           then let ts = ct_CallerStartTs req + 1;
                    lock = lock\<lparr>MinCommitTS := (if ts < ct_CurrentTs req then ct_CurrentTs req else ts)\<rparr>
                in write (wb_PessimisticLock (ct_PrimaryKey req) lock batch)
                     (txn_status 0 Action_MinCommitTSPushed (Some (ToLockInfo lock (ct_PrimaryKey req))))
           else (Inr (txn_status 0 Action_MinCommitTSPushed (Some (ToLockInfo lock (ct_PrimaryKey req)))), st)
      else (Inr (txn_status 0 Action_NoAction (Some (ToLockInfo lock (ct_PrimaryKey req)))), st))"

text \<open>
  \<^verbatim>\<open>CheckTxnStatus\<close> when it is not. An error of \<^verbatim>\<open>checkCommitted\<close> is not looked at, and neither
  is one of the last write.
\<close>

definition CheckTxnStatus_unlocked ::
  "('db, 'ls, 'h) mvcc_env \<Rightarrow> requestCtx \<Rightarrow> CheckTxnStatusRequest \<Rightarrow> writeBatch \<Rightarrow> ('db, 'ls) MVCCStore \<Rightarrow>
   (kv_error + TxnStatus) \<times> ('db, 'ls) MVCCStore" where
  "CheckTxnStatus_unlocked env rc req batch st =
     (let commitTS = (case checkCommitted env rc st (ct_PrimaryKey req) (ct_LockTs req) of Inl _ \<Rightarrow> 0 | Inr ts \<Rightarrow> ts);
          status = checkExtraTxnStatus env st (ct_PrimaryKey req) (ct_LockTs req)
      in if commitTS > 0 then (Inr (txn_status commitTS Action_NoAction None), st)
      else if isRollback status then (Inr (txn_status 0 Action_NoAction None), st)
      else if isOpLockCommitted status then (Inr (txn_status (ets_commitTS status) Action_NoAction None), st)
      else if ct_RollbackIfNotExist req
      then if ct_ResolvingPessimisticLock req then (Inr (txn_status 0 Action_LockNotExistDoNothing None), st)
           else (Inr (txn_status 0 Action_LockNotExistRollback None),
                 snd (Write env (wb_Rollback (ct_PrimaryKey req) False batch) st))
      else (Inl (ErrTxnNotFound (ct_LockTs req) (ct_PrimaryKey req)), st))"

definition CheckTxnStatus ::
  "('db, 'ls, 'h) mvcc_env \<Rightarrow> requestCtx \<Rightarrow> CheckTxnStatusRequest \<Rightarrow> ('db, 'ls) MVCCStore \<Rightarrow>
   (kv_error + TxnStatus) \<times> ('db, 'ls) MVCCStore" where
  "CheckTxnStatus env rc req st =
     (case getLock env st (ct_PrimaryKey req) of
        Inl e \<Rightarrow> (Inl e, st)
      | Inr l \<Rightarrow>
          let (batch, st) = NewWriteBatch (ct_LockTs req) 0 st
          in case l of
               Some lock \<Rightarrow>
                 if StartTS lock = ct_LockTs req then CheckTxnStatus_locked env req lock batch st
                 else CheckTxnStatus_unlocked env rc req batch st
             | None \<Rightarrow> CheckTxnStatus_unlocked env rc req batch st)"

record SecondaryLocksStatus =
  sl_locks :: "LockInfo list"
  sl_commitTS :: u64

definition secondary_status :: "LockInfo list \<Rightarrow> u64 \<Rightarrow> SecondaryLocksStatus" where
  "secondary_status locks commitTS = \<lparr>sl_locks = locks, sl_commitTS = commitTS\<rparr>"

fun CheckSecondaryLocks_loop ::
  "('db, 'ls, 'h) mvcc_env \<Rightarrow> requestCtx \<Rightarrow> u64 \<Rightarrow> writeBatch \<Rightarrow> (bytes \<times> u64 option) list \<Rightarrow> LockInfo list \<Rightarrow>
   ('db, 'ls) MVCCStore \<Rightarrow> (kv_error + SecondaryLocksStatus) \<times> ('db, 'ls) MVCCStore" where
  "CheckSecondaryLocks_loop env rc startTS batch [] locks st = (Inr (secondary_status locks 0), st)"
| "CheckSecondaryLocks_loop env rc startTS batch ((key, hashVal) # keys) locks st =
     (let missing =
        (case checkCommitted env rc st key startTS of
           Inl e \<Rightarrow> (Inl e, st)
         | Inr commitTS \<Rightarrow>
             if commitTS > 0 then (Inr (secondary_status [] commitTS), st)
             else let status = checkExtraTxnStatus env st key startTS
               in if isOpLockCommitted status then (Inr (secondary_status [] (ets_commitTS status)), st)
                  else if \<not> isRollback status
                  then (case Write env (wb_Rollback key False batch) st of
                          (Some e, st) \<Rightarrow> (Inl e, st)
                        | (None, st) \<Rightarrow> (Inr (secondary_status [] 0), st))
                  else (Inr (secondary_status [] 0), st))
      in case getLock env st key of
           Inl e \<Rightarrow> (Inl e, st)
         | Inr None \<Rightarrow> missing
         | Inr (Some lock) \<Rightarrow>
             if StartTS lock \<noteq> startTS then missing
             else if Op lock = op_code Op_PessimisticLock
             then (case Write env (wb_Rollback key True batch) st of
                     (Some e, st) \<Rightarrow> (Inl e, st)
                   | (None, st) \<Rightarrow>
                       (case hashVal of
                          None \<Rightarrow> (Inl Panic, st)
                        | Some h \<Rightarrow>
                            (case wakeUp startTS 0 [h] st of
                               (Some e, st) \<Rightarrow> (Inl e, st)
                             | (None, st) \<Rightarrow> (Inr (secondary_status [] 0), detect_cleanUp startTS st))))
             else CheckSecondaryLocks_loop env rc startTS batch keys (locks @ [ToLockInfo lock key]) st)"

text \<open>\<^verbatim>\<open>hashVals[i]\<close> pairs the sorted keys with the sorted hashes, of which there may be fewer.\<close>

definition CheckSecondaryLocks ::
  "('db, 'ls, 'h) mvcc_env \<Rightarrow> requestCtx \<Rightarrow> bytes list \<Rightarrow> u64 \<Rightarrow> ('db, 'ls) MVCCStore \<Rightarrow>
   (kv_error + SecondaryLocksStatus) \<times> ('db, 'ls) MVCCStore" where
  "CheckSecondaryLocks env rc reqKeys startTS st =
     (let keys = sortKeys reqKeys;
          hashVals = keysToHashVals env keys;
          (batch, st) = NewWriteBatch startTS 0 st
      in CheckSecondaryLocks_loop env rc startTS batch
           (zip keys (map Some hashVals @ replicate (length keys - length hashVals) None)) [] st)"

end
