(* ===== verification/Mvcc_Txn.thy ===== *)
theory Mvcc_Txn
  imports Mvcc_Store
begin

text \<open>
  The writing half of two-phase commit (\<^verbatim>\<open>mvcc.go\<close>): \<^verbatim>\<open>Prewrite\<close> with its optimistic,
  pessimistic, async-commit and one-phase branches, \<^verbatim>\<open>Commit\<close>, \<^verbatim>\<open>Rollback\<close>, \<^verbatim>\<open>Cleanup\<close>,
  \<^verbatim>\<open>ResolveLock\<close> and the scans over locks.
\<close>

section \<open>Prewrite\<close>

datatype pessimistic_action = SKIP_PESSIMISTIC_CHECK | DO_PESSIMISTIC_CHECK | DO_CONSTRAINT_CHECK

record PrewriteRequest =
  pw_Mutations :: "Mutation list"
  pw_PrimaryLock :: bytes
  pw_StartVersion :: u64
  pw_LockTtl :: u64
  pw_PessimisticActions :: "pessimistic_action list"
  pw_ForUpdateTs :: u64
  pw_MinCommitTs :: u64
  pw_UseAsyncCommit :: bool
  pw_Secondaries :: "bytes list"
  pw_TryOnePc :: bool
  pw_MaxCommitTs :: u64
  pw_AssertionOff :: bool

text \<open>What a prewrite reports besides its error: the minimal commit timestamp of async commit and
  the commit timestamp of one-phase commit, zero when there is none.\<close>

record prewrite_result =
  pwr_err :: "kv_error option"
  asyncMinCommitTS :: u64
  onePCCommitTS :: u64

definition pw_fail :: "kv_error option \<Rightarrow> prewrite_result" where
  "pw_fail e = \<lparr>pwr_err = e, asyncMinCommitTS = 0, onePCCommitTS = 0\<rparr>"

text \<open>
  Sorting a request with pessimistic actions moves the actions along with the mutations. A
  request with fewer actions than mutations panics when the missing action is read.
\<close>

definition sortPrewrite :: "PrewriteRequest \<Rightarrow> PrewriteRequest" where
  "sortPrewrite req =
     (if pw_PessimisticActions req = [] then req\<lparr>pw_Mutations := sortMutations (pw_Mutations req)\<rparr>
      else if length (pw_PessimisticActions req) < length (pw_Mutations req) then req
      else let ps = sort_key (m_Key \<circ> fst) (zip (pw_Mutations req) (pw_PessimisticActions req))
        in req\<lparr>pw_Mutations := map fst ps, pw_PessimisticActions := map snd ps\<rparr>)"

definition IsRowKey :: "bytes \<Rightarrow> bool" where
  "IsRowKey key \<longleftrightarrow> length key \<ge> 19 \<and> key ! 0 = 116 \<and> key ! 10 = 114"

definition IsNewFormat :: "bytes \<Rightarrow> kv_error + bool" where
  "IsNewFormat rowData = (case rowData of [] \<Rightarrow> Inl Panic | b # _ \<Rightarrow> Inr (b = 128))"

definition assertion_error :: "PrewriteRequest \<Rightarrow> Mutation \<Rightarrow> item option \<Rightarrow> kv_error option" where
  "assertion_error req m it =
     (if pw_AssertionOff req then None
      else case it of
        Some i \<Rightarrow>
          if IsEmpty i
          then (if m_Assertion m = Assertion_Exist
                then Some (ErrAssertionFailed (pw_StartVersion req) (m_Key m) (m_Assertion m) 0 0) else None)
          else (if m_Assertion m = Assertion_NotExist
                then Some (ErrAssertionFailed (pw_StartVersion req) (m_Key m) (m_Assertion m)
                       (DBUserMeta_StartTS (item_UserMeta i)) (DBUserMeta_CommitTS (item_UserMeta i))) else None)
      | None \<Rightarrow>
          if m_Assertion m = Assertion_Exist
          then Some (ErrAssertionFailed (pw_StartVersion req) (m_Key m) (m_Assertion m) 0 0) else None)"

definition buildPrewriteLock ::
  "('db, 'ls, 'h) mvcc_env \<Rightarrow> Mutation \<Rightarrow> item option \<Rightarrow> PrewriteRequest \<Rightarrow> kv_error + Lock" where
  "buildPrewriteLock env m it req =
     (let lock = zero_lock\<lparr>StartTS := pw_StartVersion req, TTL := ucast (pw_LockTtl req),
            PrimaryLen := of_nat (length (pw_PrimaryLock req)), MinCommitTS := pw_MinCommitTs req,
            UseAsyncCommit := pw_UseAsyncCommit req, SecondaryNum := of_nat (length (pw_Secondaries req)),
            Primary := pw_PrimaryLock req, Value := m_Value m, Secondaries := pw_Secondaries req\<rparr>
      in case assertion_error req m it of
           Some e \<Rightarrow> Inl e
         | None \<Rightarrow>
             res_bind (if m_Op m = Op_Insert
                       then if (case it of Some i \<Rightarrow> item_val i \<noteq> [] | None \<Rightarrow> False)
                            then Inl (ErrKeyAlreadyExists (m_Key m)) else Inr (op_code Op_Put)
                       else Inr (op_code (m_Op m))) (\<lambda>opc.
             res_bind (if IsRowKey (m_Key m) \<and> opc = op_code Op_Put
                       then res_bind (IsNewFormat (m_Value m)) (\<lambda>newFormat.
                              if newFormat then Inr (m_Value m) else encodeFromOldRow env (m_Value m))
                       else Inr (m_Value m)) (\<lambda>val.
             Inr (lock\<lparr>Op := opc, Value := val, ForUpdateTS := pw_ForUpdateTs req\<rparr>))))"

text \<open>The loops of \<^verbatim>\<open>prewriteMutations\<close> and \<^verbatim>\<open>tryOnePC\<close> over the mutations.\<close>

fun prewrite_batch ::
  "('db, 'ls, 'h) mvcc_env \<Rightarrow> PrewriteRequest \<Rightarrow> (bytes \<Rightarrow> Lock \<Rightarrow> writeBatch \<Rightarrow> writeBatch) \<Rightarrow>
   (Mutation \<times> item option) list \<Rightarrow> writeBatch \<Rightarrow> kv_error + writeBatch" where
  "prewrite_batch env req put [] wb = Inr wb"
| "prewrite_batch env req put ((m, it) # ms) wb =
     (if m_Op m = Op_CheckNotExists then prewrite_batch env req put ms wb
      else res_bind (buildPrewriteLock env m it req) (\<lambda>lock.
        prewrite_batch env req put ms (put (m_Key m) lock wb)))"

text \<open>\<^verbatim>\<open>tryOnePC\<close>: whether it committed, or an error, and the commit timestamp it has set.\<close>

definition tryOnePC ::
  "('db, 'ls, 'h) mvcc_env \<Rightarrow> PrewriteRequest \<Rightarrow> (Mutation \<times> item option) list \<Rightarrow> u64 \<Rightarrow> u64 \<Rightarrow>
   ('db, 'ls) MVCCStore \<Rightarrow> (kv_error + bool) \<times> u64 \<times> ('db, 'ls) MVCCStore" where
  "tryOnePC env req mutations minCommitTS maxCommitTS st =
     (if maxCommitTS \<noteq> 0 \<and> minCommitTS > maxCommitTS then (Inr False, 0, st)
      else if minCommitTS < pw_StartVersion req then (Inl Panic, 0, st)
      else let st = updateLatestTS minCommitTS st;
               (batch, st) = NewWriteBatch (pw_StartVersion req) minCommitTS st
           in case prewrite_batch env req wb_Commit mutations batch of
                Inl e \<Rightarrow> (Inl e, minCommitTS, st)
              | Inr wb \<Rightarrow>
                  (case Write env wb st of
                     (Some e, st) \<Rightarrow> (Inl e, minCommitTS, st)
                   | (None, st) \<Rightarrow> (Inr True, minCommitTS, st)))"

definition async_request :: "u64 \<Rightarrow> PrewriteRequest \<Rightarrow> PrewriteRequest" where
  "async_request minCommitTS req =
     (let req = (if pw_MaxCommitTs req > 0 \<and> minCommitTS > pw_MaxCommitTs req
                 then req\<lparr>pw_UseAsyncCommit := False, pw_TryOnePc := False\<rparr> else req)
      in if pw_UseAsyncCommit req \<and> minCommitTS > pw_MinCommitTs req
         then req\<lparr>pw_MinCommitTs := minCommitTS\<rparr> else req)"

definition prewrite_locks ::
  "('db, 'ls, 'h) mvcc_env \<Rightarrow> PrewriteRequest \<Rightarrow> (Mutation \<times> item option) list \<Rightarrow>
   ('db, 'ls) MVCCStore \<Rightarrow> kv_error option \<times> ('db, 'ls) MVCCStore" where
  "prewrite_locks env req mutations st =
     (let (batch, st) = NewWriteBatch (pw_StartVersion req) 0 st
      in case prewrite_batch env req wb_Prewrite mutations batch of
           Inl e \<Rightarrow> (Some e, st)
         | Inr wb \<Rightarrow> Write env wb st)"

definition prewriteMutations ::
  "('db, 'ls, 'h) mvcc_env \<Rightarrow> PrewriteRequest \<Rightarrow> (Mutation \<times> item option) list \<Rightarrow>
   ('db, 'ls) MVCCStore \<Rightarrow> prewrite_result \<times> ('db, 'ls) MVCCStore" where
  "prewriteMutations env req mutations st =
     (case (if pw_UseAsyncCommit req \<or> pw_TryOnePc req
            then res_bind (pd_GetTS env) (\<lambda>(physical, logical). Inr (push_bit 18 physical + logical))
            else Inr 0) of
        Inl e \<Rightarrow> (pw_fail (Some e), st)
      | Inr minCommitTS \<Rightarrow>
          let req = (if pw_UseAsyncCommit req \<or> pw_TryOnePc req then async_request minCommitTS req else req);
              async = (if pw_UseAsyncCommit req then minCommitTS else 0);
              (r, onePC, st) =
                (if pw_TryOnePc req then tryOnePC env req mutations minCommitTS (pw_MaxCommitTs req) st
                 else (Inr False, 0, st))
          in case r of
               Inl e \<Rightarrow> (\<lparr>pwr_err = Some e, asyncMinCommitTS = async, onePCCommitTS = onePC\<rparr>, st)
             | Inr True \<Rightarrow> (\<lparr>pwr_err = None, asyncMinCommitTS = async, onePCCommitTS = onePC\<rparr>, st)
             | Inr False \<Rightarrow>
                 let (err, st) = prewrite_locks env req mutations st
                 in (\<lparr>pwr_err = err, asyncMinCommitTS = async, onePCCommitTS = onePC\<rparr>, st))"

text \<open>
  The loop of \<^verbatim>\<open>prewriteOptimistic\<close> over the lock store: an error, or whether the request
  is a duplicate.
\<close>

fun prewriteOptimistic_check ::
  "('db, 'ls, 'h) mvcc_env \<Rightarrow> PrewriteRequest \<Rightarrow> ('db, 'ls) MVCCStore \<Rightarrow> Mutation list \<Rightarrow> kv_error + bool" where
  "prewriteOptimistic_check env req st [] = Inr False"
| "prewriteOptimistic_check env req st (m # ms) =
     res_bind (checkConflictInLockStore env st m (pw_StartVersion req)) (\<lambda>lock.
       if lock \<noteq> None then Inr True
       else if m_Key m = pw_PrimaryLock req
       then let status = checkExtraTxnStatus env st (m_Key m) (pw_StartVersion req)
         in if isRollback status then Inl ErrAlreadyRollback
            else if isOpLockCommitted status then Inr True
            else prewriteOptimistic_check env req st ms
       else prewriteOptimistic_check env req st ms)"

fun prewriteOptimistic_conflict ::
  "('db, 'ls, 'h) mvcc_env \<Rightarrow> u64 \<Rightarrow> (Mutation \<times> item option) list \<Rightarrow> kv_error option" where
  "prewriteOptimistic_conflict env startTS [] = None"
| "prewriteOptimistic_conflict env startTS ((m, None) # ms) = prewriteOptimistic_conflict env startTS ms"
| "prewriteOptimistic_conflict env startTS ((m, Some i) # ms) =
     (if DBUserMeta_CommitTS (item_UserMeta i) > startTS
      then Some (ErrConflict startTS (DBUserMeta_StartTS (item_UserMeta i))
             (DBUserMeta_CommitTS (item_UserMeta i)) (item_Key i) WC_Optimistic)
      else if m_Op m = Op_CheckNotExists
      then (case bg_value (env_badger env) i of
              Inl e \<Rightarrow> Some e
            | Inr val \<Rightarrow> if val \<noteq> [] then Some (ErrKeyAlreadyExists (m_Key m))
                         else prewriteOptimistic_conflict env startTS ms)
      else prewriteOptimistic_conflict env startTS ms)"

definition prewriteOptimistic ::
  "('db, 'ls, 'h) mvcc_env \<Rightarrow> PrewriteRequest \<Rightarrow> ('db, 'ls) MVCCStore \<Rightarrow> prewrite_result \<times> ('db, 'ls) MVCCStore" where
  "prewriteOptimistic env req st =
     (case prewriteOptimistic_check env req st (pw_Mutations req) of
        Inl e \<Rightarrow> (pw_fail (Some e), st)
      | Inr True \<Rightarrow> (pw_fail None, st)
      | Inr False \<Rightarrow>
          (case getDBItems env st (pw_Mutations req) of
             Inl e \<Rightarrow> (pw_fail (Some e), st)
           | Inr items \<Rightarrow>
               let ms = zip (pw_Mutations req) items
               in case prewriteOptimistic_conflict env (pw_StartVersion req) ms of
                    Some e \<Rightarrow> (pw_fail (Some e), st)
                  | None \<Rightarrow> prewriteMutations env req ms st))"

definition constraint_error :: "('db, 'ls, 'h) mvcc_env \<Rightarrow> u64 \<Rightarrow> bytes \<Rightarrow> ('db, 'ls) MVCCStore \<Rightarrow> kv_error option" where
  "constraint_error env startTS key st =
     (case bg_get (env_badger env) (store_db st) (bg_newReadTS (env_badger env)) key of
        Inl e \<Rightarrow> Some e
      | Inr None \<Rightarrow> None
      | Inr (Some i) \<Rightarrow>
          if DBUserMeta_CommitTS (item_UserMeta i) > startTS
          then Some (ErrConflict startTS (DBUserMeta_StartTS (item_UserMeta i))
                 (DBUserMeta_CommitTS (item_UserMeta i)) (item_Key i) WC_LazyUniquenessCheck)
          else None)"

text \<open>
  The loop of \<^verbatim>\<open>prewritePessimistic\<close>: an error, or whether the request is a duplicate, with
  the lock TTL raised to that of the pessimistic locks.
\<close>

fun prewritePessimistic_check ::
  "('db, 'ls, 'h) mvcc_env \<Rightarrow> PrewriteRequest \<Rightarrow> ('db, 'ls) MVCCStore \<Rightarrow>
   (Mutation \<times> pessimistic_action option) list \<Rightarrow> u64 \<Rightarrow> kv_error + (bool \<times> u64)" where
  "prewritePessimistic_check env req st [] ttl = Inr (False, ttl)"
| "prewritePessimistic_check env req st ((m, action) # ms) ttl =
     (if m_Op m = Op_CheckNotExists then Inl (ErrInvalidOp (m_Op m))
      else res_bind (getLock env st (m_Key m)) (\<lambda>l.
        if pw_PessimisticActions req \<noteq> [] \<and> action = None then Inl Panic
        else if action = Some DO_PESSIMISTIC_CHECK
        then (case l of
                None \<Rightarrow> Inl (ErrMessage ''pessimistic lock not found'')
              | Some lock \<Rightarrow>
                  if StartTS lock \<noteq> pw_StartVersion req then Inl (ErrMessage ''pessimistic lock not found'')
                  else if Op lock \<noteq> op_code Op_PessimisticLock then Inr (True, ttl)
                  else prewritePessimistic_check env req st ms
                         (if ucast (TTL lock) > ttl then ucast (TTL lock) else ttl))
        else if action = Some DO_CONSTRAINT_CHECK
        then (case constraint_error env (pw_StartVersion req) (m_Key m) st of
                Some e \<Rightarrow> Inl e
              | None \<Rightarrow> prewritePessimistic_check env req st ms ttl)
        else (case l of
                None \<Rightarrow> prewritePessimistic_check env req st ms ttl
              | Some lock \<Rightarrow>
                  if StartTS lock \<noteq> pw_StartVersion req then Inl (BuildLockErr (m_Key m) (lock\<lparr>TTL := 0\<rparr>))
                  else Inr (True, ttl))))"

definition prewritePessimistic ::
  "('db, 'ls, 'h) mvcc_env \<Rightarrow> PrewriteRequest \<Rightarrow> ('db, 'ls) MVCCStore \<Rightarrow> prewrite_result \<times> ('db, 'ls) MVCCStore" where
  "prewritePessimistic env req st =
     (let actions = map Some (pw_PessimisticActions req) @
            replicate (length (pw_Mutations req) - length (pw_PessimisticActions req)) None
      in case prewritePessimistic_check env req st (zip (pw_Mutations req) actions) (pw_LockTtl req) of
        Inl e \<Rightarrow> (pw_fail (Some e), st)
      | Inr (True, _) \<Rightarrow> (pw_fail None, st)
      | Inr (False, ttl) \<Rightarrow>
          (case getDBItems env st (pw_Mutations req) of
             Inl e \<Rightarrow> (pw_fail (Some e), st)
           | Inr items \<Rightarrow> prewriteMutations env (req\<lparr>pw_LockTtl := ttl\<rparr>) (zip (pw_Mutations req) items) st))"

definition Prewrite ::
  "('db, 'ls, 'h) mvcc_env \<Rightarrow> PrewriteRequest \<Rightarrow> ('db, 'ls) MVCCStore \<Rightarrow> prewrite_result \<times> ('db, 'ls) MVCCStore" where
  "Prewrite env req st =
     (let req = sortPrewrite req;
          hashVals = mutationsToHashVals env (pw_Mutations req);
          isPessimistic = pw_ForUpdateTs req > 0;
          (r, st) = (if isPessimistic then prewritePessimistic env req st else prewriteOptimistic env req st)
      in case pwr_err r of
           Some e \<Rightarrow> (r, st)
         | None \<Rightarrow>
             if onePCCommitTS r \<noteq> 0 \<and> isPessimistic
             then (case wakeUp (pw_StartVersion req) (onePCCommitTS r) hashVals st of
                     (Some e, st) \<Rightarrow> (r\<lparr>pwr_err := Some e\<rparr>, st)
                   | (None, st) \<Rightarrow> (r, detect_cleanUp (pw_StartVersion req) st))
             else (r, st))"

section \<open>Commit\<close>

definition handleLockNotFound ::
  "('db, 'ls, 'h) mvcc_env \<Rightarrow> ('db, 'ls) MVCCStore \<Rightarrow> bytes \<Rightarrow> u64 \<Rightarrow> u64 \<Rightarrow> kv_error option" where
  "handleLockNotFound env st key startTS commitTS =
     (case bg_get (env_badger env) (store_db st) commitTS key of
        Inl e \<Rightarrow> Some e
      | Inr None \<Rightarrow> Some ErrLockNotFound
      | Inr (Some i) \<Rightarrow> if DBUserMeta_StartTS (item_UserMeta i) = startTS then None else Some ErrLockNotFound)"

text \<open>The loop of \<^verbatim>\<open>Commit\<close>: the batch, the size it adds and whether the last lock was pessimistic.\<close>

fun Commit_loop ::
  "('db, 'ls, 'h) mvcc_env \<Rightarrow> ('db, 'ls) MVCCStore \<Rightarrow> u64 \<Rightarrow> u64 \<Rightarrow> bytes list \<Rightarrow>
   writeBatch \<times> nat \<times> bool \<Rightarrow> kv_error + (writeBatch \<times> nat \<times> bool)" where
  "Commit_loop env st startTS commitTS [] acc = Inr acc"
| "Commit_loop env st startTS commitTS (key # keys) (wb, tmpDiff, pess) =
     res_bind (getLock env st key) (\<lambda>l.
       let lockErr = (case l of
                        None \<Rightarrow> Some ErrLockNotFound
                      | Some lock \<Rightarrow> if StartTS lock \<noteq> startTS then Some ErrReplaced else None)
       in case lockErr of
            Some e \<Rightarrow>
              (case handleLockNotFound env st key startTS commitTS of
                 None \<Rightarrow> Commit_loop env st startTS commitTS keys (wb, tmpDiff, pess)
               | Some _ \<Rightarrow> Inl e)
          | None \<Rightarrow>
              let lock = the l
              in if commitTS < MinCommitTS lock then Inl (ErrCommitExpire startTS commitTS (MinCommitTS lock) key)
                 else Commit_loop env st startTS commitTS keys
                        (wb_Commit key lock wb, tmpDiff + length key + length (Value lock), ForUpdateTS lock > 0))"

definition Commit ::
  "('db, 'ls, 'h) mvcc_env \<Rightarrow> bytes list \<Rightarrow> u64 \<Rightarrow> u64 \<Rightarrow> ('db, 'ls) MVCCStore \<Rightarrow> kv_error option \<times> ('db, 'ls) MVCCStore" where
  "Commit env reqKeys startTS commitTS st =
     (let keys = sortKeys reqKeys;
          st = updateLatestTS commitTS st;
          hashVals = keysToHashVals env keys;
          (batch, st) = NewWriteBatch startTS commitTS st
      in case Commit_loop env st startTS commitTS keys (batch, 0, False) of
           Inl e \<Rightarrow> (Some e, st)
         | Inr (wb, tmpDiff, isPessimisticTxn) \<Rightarrow>
             let st = st\<lparr>region_diff := region_diff st + of_nat tmpDiff\<rparr>;
                 (err, st) = Write env wb st
             in case wakeUp startTS commitTS hashVals st of
                  (Some e, st) \<Rightarrow> (Some e, st)
                | (None, st) \<Rightarrow> (err, if isPessimisticTxn then detect_cleanUp startTS st else st))"

section \<open>Rollback\<close>

datatype rollback_status = rollbackStatusDone | rollbackStatusNoLock | rollbackStatusNewLock

definition rollbackKeyReadLock ::
  "('db, 'ls, 'h) mvcc_env \<Rightarrow> ('db, 'ls) MVCCStore \<Rightarrow> bytes \<Rightarrow> u64 \<Rightarrow> u64 \<Rightarrow> writeBatch \<Rightarrow>
   kv_error + (rollback_status \<times> writeBatch)" where
  "rollbackKeyReadLock env st key startTS currentTs batch =
     res_bind (getLock env st key) (\<lambda>l. case l of
         None \<Rightarrow> Inr (rollbackStatusNoLock, batch)
       | Some lock \<Rightarrow>
           if StartTS lock < startTS then Inr (rollbackStatusDone, wb_Rollback key False batch)
           else if StartTS lock = startTS
           then if currentTs > 0 \<and>
                   ExtractPhysical env (StartTS lock) + ucast (TTL lock) \<ge> ExtractPhysical env currentTs
                then Inl (BuildLockErr key lock)
                else Inr (rollbackStatusDone, wb_Rollback key True batch)
           else Inr (rollbackStatusNewLock, batch))"

definition rollbackKeyReadDB ::
  "('db, 'ls, 'h) mvcc_env \<Rightarrow> requestCtx \<Rightarrow> ('db, 'ls) MVCCStore \<Rightarrow> bytes \<Rightarrow> u64 \<Rightarrow> writeBatch \<Rightarrow> kv_error + writeBatch" where
  "rollbackKeyReadDB env rc st key startTS batch =
     res_bind (checkCommitted env rc st key startTS) (\<lambda>commitTS.
       if commitTS \<noteq> 0 then Inl (ErrAlreadyCommitted commitTS)
       else Inr (wb_Rollback key False batch))"

fun Rollback_readLocks ::
  "('db, 'ls, 'h) mvcc_env \<Rightarrow> ('db, 'ls) MVCCStore \<Rightarrow> u64 \<Rightarrow> bytes list \<Rightarrow> writeBatch \<Rightarrow>
   kv_error + (rollback_status list \<times> writeBatch)" where
  "Rollback_readLocks env st startTS [] wb = Inr ([], wb)"
| "Rollback_readLocks env st startTS (key # keys) wb =
     res_bind (rollbackKeyReadLock env st key startTS 0 wb) (\<lambda>(s, wb).
     res_bind (Rollback_readLocks env st startTS keys wb) (\<lambda>(ss, wb). Inr (s # ss, wb)))"

fun Rollback_readDB ::
  "('db, 'ls, 'h) mvcc_env \<Rightarrow> requestCtx \<Rightarrow> ('db, 'ls) MVCCStore \<Rightarrow> u64 \<Rightarrow> (bytes \<times> rollback_status) list \<Rightarrow>
   writeBatch \<Rightarrow> kv_error + writeBatch" where
  "Rollback_readDB env rc st startTS [] wb = Inr wb"
| "Rollback_readDB env rc st startTS ((key, status) # ks) wb =
     (if status = rollbackStatusDone then Rollback_readDB env rc st startTS ks wb
      else res_bind (rollbackKeyReadDB env rc st key startTS wb) (Rollback_readDB env rc st startTS ks))"

definition Rollback ::
  "('db, 'ls, 'h) mvcc_env \<Rightarrow> requestCtx \<Rightarrow> bytes list \<Rightarrow> u64 \<Rightarrow> ('db, 'ls) MVCCStore \<Rightarrow> kv_error option \<times> ('db, 'ls) MVCCStore" where
  "Rollback env rc reqKeys startTS st =
     (let keys = sortKeys reqKeys;
          (batch, st) = NewWriteBatch startTS 0 st
      in case res_bind (Rollback_readLocks env st startTS keys batch) (\<lambda>(statuses, wb).
                Rollback_readDB env rc st startTS (zip keys statuses) wb) of
           Inl e \<Rightarrow> (Some e, st)
         | Inr wb \<Rightarrow> Write env wb (detect_cleanUp startTS st))"

definition Cleanup ::
  "('db, 'ls, 'h) mvcc_env \<Rightarrow> requestCtx \<Rightarrow> bytes \<Rightarrow> u64 \<Rightarrow> u64 \<Rightarrow> ('db, 'ls) MVCCStore \<Rightarrow> kv_error option \<times> ('db, 'ls) MVCCStore" where
  "Cleanup env rc key startTS currentTs st =
     (let hashVals = keysToHashVals env [key];
          (batch, st) = NewWriteBatch startTS 0 st
      in case res_bind (rollbackKeyReadLock env st key startTS currentTs batch) (\<lambda>(status, wb).
                if status = rollbackStatusDone then Inr wb
                else res_bind (rollbackKeyReadDB env rc st key startTS wb) (\<lambda>wb.
                  let rbStatus = checkExtraTxnStatus env st key startTS
                  in if isOpLockCommitted rbStatus then Inl (ErrAlreadyCommitted (ets_commitTS rbStatus))
                     else Inr wb)) of
           Inl e \<Rightarrow> (Some e, st)
         | Inr wb \<Rightarrow>
             let (err, st) = Write env wb st
             in case wakeUp startTS 0 hashVals st of
                  (Some e, st) \<Rightarrow> (Some e, st)
                | (None, st) \<Rightarrow> (err, st))"

section \<open>Locks of a range\<close>

definition decode_lock :: "bytes \<Rightarrow> kv_error + Lock" where
  "decode_lock b = (case DecodeLock b of None \<Rightarrow> Inl Panic | Some l \<Rightarrow> Inr l)"

definition appendScannedLock :: "LockInfo list \<Rightarrow> bytes \<Rightarrow> Lock \<Rightarrow> u64 \<Rightarrow> LockInfo list" where
  "appendScannedLock locks key lock maxTS =
     (if StartTS lock < maxTS then locks @ [ToLockInfo lock key] else locks)"

fun ScanLock_loop ::
  "bytes \<Rightarrow> u64 \<Rightarrow> int \<Rightarrow> (bytes \<times> bytes) list \<Rightarrow> LockInfo list \<Rightarrow> kv_error + LockInfo list" where
  "ScanLock_loop endKey maxTS limit [] locks = Inr locks"
| "ScanLock_loop endKey maxTS limit ((key, val) # kvs) locks =
     (if exceedEndKey key endKey then Inr locks
      else if int (length locks) = limit then Inr locks
      else res_bind (decode_lock val) (\<lambda>lock.
        ScanLock_loop endKey maxTS limit kvs (appendScannedLock locks key lock maxTS)))"

definition ScanLock ::
  "('db, 'ls, 'h) mvcc_env \<Rightarrow> requestCtx \<Rightarrow> u64 \<Rightarrow> int \<Rightarrow> ('db, 'ls) MVCCStore \<Rightarrow> kv_error + LockInfo list" where
  "ScanLock env rc maxTS limit st =
     ScanLock_loop (RawEnd rc) maxTS limit (ls_iterate (env_locks env) (lockStore st) (RawStart rc)) []"

definition PhysicalScanLock ::
  "('db, 'ls, 'h) mvcc_env \<Rightarrow> bytes \<Rightarrow> u64 \<Rightarrow> int \<Rightarrow> ('db, 'ls) MVCCStore \<Rightarrow> kv_error + LockInfo list" where
  "PhysicalScanLock env startKey maxTS limit st =
     ScanLock_loop [] maxTS limit (ls_iterate (env_locks env) (lockStore st) startKey) []"

fun ResolveLock_keys :: "bytes \<Rightarrow> u64 \<Rightarrow> (bytes \<times> bytes) list \<Rightarrow> kv_error + bytes list" where
  "ResolveLock_keys endKey startTS [] = Inr []"
| "ResolveLock_keys endKey startTS ((key, val) # kvs) =
     (if exceedEndKey key endKey then Inr []
      else res_bind (decode_lock val) (\<lambda>lock.
        res_bind (ResolveLock_keys endKey startTS kvs) (\<lambda>ks.
          Inr (if StartTS lock \<noteq> startTS then ks else key # ks))))"

fun ResolveLock_loop ::
  "('db, 'ls, 'h) mvcc_env \<Rightarrow> ('db, 'ls) MVCCStore \<Rightarrow> u64 \<Rightarrow> u64 \<Rightarrow> bytes list \<Rightarrow> writeBatch \<times> nat \<Rightarrow> kv_error + (writeBatch \<times> nat)" where
  "ResolveLock_loop env st startTS commitTS [] acc = Inr acc"
| "ResolveLock_loop env st startTS commitTS (key # keys) (wb, tmpDiff) =
     res_bind (getLock env st key) (\<lambda>l. case l of
         None \<Rightarrow> ResolveLock_loop env st startTS commitTS keys (wb, tmpDiff)
       | Some lock \<Rightarrow>
           if StartTS lock \<noteq> startTS then ResolveLock_loop env st startTS commitTS keys (wb, tmpDiff)
           else ResolveLock_loop env st startTS commitTS keys
             (if commitTS > 0 then (wb_Commit key lock wb, tmpDiff + length key + length (Value lock))
              else (wb_Rollback key True wb, tmpDiff)))"

definition ResolveLock ::
  "('db, 'ls, 'h) mvcc_env \<Rightarrow> requestCtx \<Rightarrow> bytes list \<Rightarrow> u64 \<Rightarrow> u64 \<Rightarrow> ('db, 'ls) MVCCStore \<Rightarrow> kv_error option \<times> ('db, 'ls) MVCCStore" where
  "ResolveLock env rc lockKeys startTS commitTS st =
     (case (if lockKeys = []
            then ResolveLock_keys (RawEnd rc) startTS (ls_iterate (env_locks env) (lockStore st) (RawStart rc))
            else Inr lockKeys) of
        Inl e \<Rightarrow> (Some e, st)
      | Inr [] \<Rightarrow> (None, st)
      | Inr (k # ks) \<Rightarrow>
          let (batch, st) = NewWriteBatch startTS commitTS st
          in case ResolveLock_loop env st startTS commitTS (k # ks) (batch, 0) of
               Inl e \<Rightarrow> (Some e, st)
             | Inr (wb, tmpDiff) \<Rightarrow> Write env wb (st\<lparr>region_diff := region_diff st + of_nat tmpDiff\<rparr>))"

end
