(* ===== verification/Mvcc_Read.thy ===== *)
theory Mvcc_Read
  imports Mvcc_Txn
begin

text \<open>
  The reading half of the store (\<^verbatim>\<open>mvcc.go\<close>): the check of the locks a reader meets, \<^verbatim>\<open>Get\<close>,
  \<^verbatim>\<open>BatchGet\<close> and \<^verbatim>\<open>Scan\<close>, the inspection requests, and garbage collection.
\<close>

section \<open>Locks in the way of a reader\<close>

definition inTSSet :: "u64 \<Rightarrow> u64 list \<Rightarrow> bool" where
  "inTSSet startTS tsSet \<longleftrightarrow> list_ex (\<lambda>v. startTS = v) tsSet"

definition isWriteLock :: "Lock \<Rightarrow> bool" where
  "isWriteLock lock \<longleftrightarrow> Op lock = op_code Op_Put \<or> Op lock = op_code Op_Del"

definition getValueFromLock :: "Lock \<Rightarrow> bytes option" where
  "getValueFromLock lock = (if Op lock = op_code Op_Put then Some (Value lock) else None)"

definition checkLock ::
  "Lock \<Rightarrow> bytes \<Rightarrow> u64 \<Rightarrow> u64 list \<Rightarrow> u64 list \<Rightarrow> kv_error + (bytes \<times> Lock) option" where
  "checkLock lock key startTS resolved committed =
     (if inTSSet (StartTS lock) resolved then Inr None
      else let lockVisible = StartTS lock \<le> startTS;
               isPrimaryGet = startTS = maxSystemTS \<and> Primary lock = key \<and> \<not> UseAsyncCommit lock
           in if lockVisible \<and> isWriteLock lock \<and> \<not> isPrimaryGet
              then if inTSSet (StartTS lock) committed then Inr (Some (key, lock))
                   else Inl (BuildLockErr key lock)
              else Inr None)"

definition checkLockForRcCheckTS :: "Lock \<Rightarrow> bytes \<Rightarrow> u64 \<Rightarrow> u64 list \<Rightarrow> kv_error option" where
  "checkLockForRcCheckTS lock key startTS resolved =
     (if inTSSet (StartTS lock) resolved then None
      else if \<not> isWriteLock lock then None
      else Some (ErrConflict startTS (StartTS lock) 0 key WC_RcCheckTs))"

fun CheckKeysLockForRcCheckTS ::
  "('db, 'ls, 'h) mvcc_env \<Rightarrow> ('db, 'ls) MVCCStore \<Rightarrow> u64 \<Rightarrow> u64 list \<Rightarrow> bytes list \<Rightarrow> kv_error option" where
  "CheckKeysLockForRcCheckTS env st startTS resolved [] = None"
| "CheckKeysLockForRcCheckTS env st startTS resolved (key # keys) =
     (case getLock env st key of
        Inl e \<Rightarrow> Some e
      | Inr None \<Rightarrow> CheckKeysLockForRcCheckTS env st startTS resolved keys
      | Inr (Some lock) \<Rightarrow>
          (case checkLockForRcCheckTS lock key startTS resolved of
             Some e \<Rightarrow> Some e
           | None \<Rightarrow> CheckKeysLockForRcCheckTS env st startTS resolved keys))"

fun CheckKeysLock ::
  "('db, 'ls, 'h) mvcc_env \<Rightarrow> ('db, 'ls) MVCCStore \<Rightarrow> u64 \<Rightarrow> u64 list \<Rightarrow> u64 list \<Rightarrow> bytes list \<Rightarrow>
   kv_error + (bytes \<times> Lock) list" where
  "CheckKeysLock env st startTS resolved committed [] = Inr []"
| "CheckKeysLock env st startTS resolved committed (key # keys) =
     res_bind (getLock env st key) (\<lambda>l. case l of
         None \<Rightarrow> CheckKeysLock env st startTS resolved committed keys
       | Some lock \<Rightarrow>
           res_bind (checkLock lock key startTS resolved committed) (\<lambda>lockPair.
           res_bind (CheckKeysLock env st startTS resolved committed keys) (\<lambda>lockPairs.
             Inr (case lockPair of Some p \<Rightarrow> p # lockPairs | None \<Rightarrow> lockPairs))))"

fun CheckRangeLock_loop :: "u64 \<Rightarrow> bytes \<Rightarrow> u64 list \<Rightarrow> (bytes \<times> bytes) list \<Rightarrow> kv_error option" where
  "CheckRangeLock_loop startTS endKey resolved [] = None"
| "CheckRangeLock_loop startTS endKey resolved ((key, val) # kvs) =
     (if exceedEndKey key endKey then None
      else case res_bind (decode_lock val) (\<lambda>lock. checkLock lock key startTS resolved []) of
             Inl e \<Rightarrow> Some e
           | Inr _ \<Rightarrow> CheckRangeLock_loop startTS endKey resolved kvs)"

definition CheckRangeLock ::
  "('db, 'ls, 'h) mvcc_env \<Rightarrow> ('db, 'ls) MVCCStore \<Rightarrow> u64 \<Rightarrow> bytes \<Rightarrow> bytes \<Rightarrow> u64 list \<Rightarrow> kv_error option" where
  "CheckRangeLock env st startTS startKey endKey resolved =
     CheckRangeLock_loop startTS endKey resolved (ls_iterate (env_locks env) (lockStore st) startKey)"

section \<open>Point reads\<close>

definition Get ::
  "('db, 'ls, 'h) mvcc_env \<Rightarrow> requestCtx \<Rightarrow> ('db, 'ls) MVCCStore \<Rightarrow> bytes \<Rightarrow> u64 \<Rightarrow> kv_error + bytes option" where
  "Get env rc st key version =
     (let read = DBReader_Get (env_badger env) (getDBReader rc) (store_db st) key version
      in if isSnapshotIsolation rc
         then res_bind (CheckKeysLock env st version (ResolvedLocks rc) (CommittedLocks rc) [key])
           (\<lambda>lockPairs. case lockPairs of
                (_, lock) # _ \<Rightarrow> Inr (getValueFromLock lock)
              | [] \<Rightarrow> read)
         else if isRcCheckTSIsolationLevel rc
         then (case CheckKeysLockForRcCheckTS env st version (ResolvedLocks rc) [key] of
                 Some e \<Rightarrow> Inl e
               | None \<Rightarrow> read)
         else read)"

record KvPair =
  kp_Key :: bytes
  kp_Value :: bytes
  kp_Error :: "kv_error option"

definition kv_pair :: "bytes \<Rightarrow> bytes \<Rightarrow> kv_error option \<Rightarrow> KvPair" where
  "kv_pair key val err = \<lparr>kp_Key = key, kp_Value = val, kp_Error = err\<rparr>"

text \<open>The pairs answered from locks, and the keys that remain to be read.\<close>

fun BatchGet_locks ::
  "('db, 'ls, 'h) mvcc_env \<Rightarrow> requestCtx \<Rightarrow> ('db, 'ls) MVCCStore \<Rightarrow> u64 \<Rightarrow> bytes list \<Rightarrow> KvPair list \<times> bytes list" where
  "BatchGet_locks env rc st version [] = ([], [])"
| "BatchGet_locks env rc st version (key # keys) =
     (let (pairs, remain) = BatchGet_locks env rc st version keys
      in if isSnapshotIsolation rc
         then (case CheckKeysLock env st version (ResolvedLocks rc) (CommittedLocks rc) [key] of
                 Inl e \<Rightarrow> (kv_pair key [] (Some e) # pairs, remain)
               | Inr ((_, lock) # _) \<Rightarrow>
                   (case getValueFromLock lock of
                      Some v \<Rightarrow> (kv_pair key v None # pairs, remain)
                    | None \<Rightarrow> (pairs, remain))
               | Inr [] \<Rightarrow> (pairs, key # remain))
         else if isRcCheckTSIsolationLevel rc
         then (case CheckKeysLockForRcCheckTS env st version (ResolvedLocks rc) [key] of
                 Some e \<Rightarrow> (kv_pair key [] (Some e) # pairs, remain)
               | None \<Rightarrow> (pairs, key # remain))
         else (pairs, key # remain))"

definition BatchGet ::
  "('db, 'ls, 'h) mvcc_env \<Rightarrow> requestCtx \<Rightarrow> ('db, 'ls) MVCCStore \<Rightarrow> bytes list \<Rightarrow> u64 \<Rightarrow> KvPair list" where
  "BatchGet env rc st keys version =
     (let (pairs, remain) = BatchGet_locks env rc st version keys
      in pairs @ map (\<lambda>(key, val, err). kv_pair key val err)
           (filter (\<lambda>(key, val, err). val \<noteq> [])
             (DBReader_BatchGet (env_badger env) (getDBReader rc) (store_db st) remain version)))"

section \<open>Scans\<close>

fun collectRangeLock_loop ::
  "u64 \<Rightarrow> bytes \<Rightarrow> requestCtx \<Rightarrow> (bytes \<times> bytes) list \<Rightarrow> kv_error + KvPair list" where
  "collectRangeLock_loop startTS endKey rc [] = Inr []"
| "collectRangeLock_loop startTS endKey rc ((key, val) # kvs) =
     (if exceedEndKey key endKey then Inr []
      else res_bind (decode_lock val) (\<lambda>lock.
        res_bind (collectRangeLock_loop startTS endKey rc kvs) (\<lambda>pairs.
          Inr ((case IsolationLevel rc of
                  SI \<Rightarrow>
                    (case checkLock lock key startTS (ResolvedLocks rc) (CommittedLocks rc) of
                       Inr (Some (k, l)) \<Rightarrow> [kv_pair k (case getValueFromLock l of Some v \<Rightarrow> v | None \<Rightarrow> []) None]
                     | Inr None \<Rightarrow> []
                     | Inl e \<Rightarrow> [kv_pair key [] (Some e)])
                | RCCheckTS \<Rightarrow>
                    (case checkLockForRcCheckTS lock key startTS (ResolvedLocks rc) of
                       Some e \<Rightarrow> [kv_pair key [] (Some e)]
                     | None \<Rightarrow> [])
                | RC \<Rightarrow> []) @ pairs))))"

definition collectRangeLock ::
  "('db, 'ls, 'h) mvcc_env \<Rightarrow> requestCtx \<Rightarrow> ('db, 'ls) MVCCStore \<Rightarrow> u64 \<Rightarrow> bytes \<Rightarrow> bytes \<Rightarrow> kv_error + KvPair list" where
  "collectRangeLock env rc st startTS startKey endKey =
     collectRangeLock_loop startTS endKey rc (ls_iterate (env_locks env) (lockStore st) startKey)"

text \<open>\<^verbatim>\<open>kvScanProcessor.Process\<close> over the pairs of a scan: with a sample step every step-th pair.\<close>

fun kvScanProcessor :: "32 word \<Rightarrow> 32 word \<Rightarrow> (bytes \<times> bytes) list \<Rightarrow> KvPair list" where
  "kvScanProcessor sampleStep scanCnt [] = []"
| "kvScanProcessor sampleStep scanCnt ((key, val) # kvs) =
     (if sampleStep > 0
      then if scanCnt mod sampleStep \<noteq> 0 then kvScanProcessor sampleStep (scanCnt + 1) kvs
           else kv_pair key val None # kvScanProcessor sampleStep (scanCnt + 1) kvs
      else kv_pair key val None # kvScanProcessor sampleStep scanCnt kvs)"

record ScanRequest =
  sr_StartKey :: bytes
  sr_EndKey :: bytes
  sr_Limit :: "32 word"
  sr_Version :: u64
  sr_Reverse :: bool
  sr_SampleStep :: "32 word"

definition InternalKeyPrefix :: bytes where "InternalKeyPrefix = [255]"

definition scan_range :: "requestCtx \<Rightarrow> ScanRequest \<Rightarrow> bytes \<times> bytes" where
  "scan_range rc req =
     (if sr_Reverse req
      then (if sr_EndKey req = [] then RawStart rc else sr_EndKey req, sr_StartKey req)
      else let endKey = (if sr_EndKey req = [] then RawEnd rc else sr_EndKey req)
        in (sr_StartKey req, if endKey = [] then InternalKeyPrefix else endKey))"

text \<open>The merge of the pairs from locks and from the database: of several pairs of a key the first
  counts, and pairs with neither a value nor an error are left out.\<close>

fun valid_pairs :: "int \<Rightarrow> bytes option \<Rightarrow> nat \<Rightarrow> KvPair list \<Rightarrow> KvPair list" where
  "valid_pairs limit prev cnt [] = []"
| "valid_pairs limit prev cnt (pair # pairs) =
     (if prev = Some (kp_Key pair) then valid_pairs limit prev cnt pairs
      else if kp_Error pair \<noteq> None \<or> kp_Value pair \<noteq> []
      then if int (cnt + 1) \<ge> limit then [pair]
           else pair # valid_pairs limit (Some (kp_Key pair)) (cnt + 1) pairs
      else valid_pairs limit (Some (kp_Key pair)) cnt pairs)"

definition Scan ::
  "('db, 'ls, 'h) mvcc_env \<Rightarrow> requestCtx \<Rightarrow> ('db, 'ls) MVCCStore \<Rightarrow> ScanRequest \<Rightarrow> kv_error + KvPair list" where
  "Scan env rc st req =
     (let (startKey, endKey) = scan_range rc req;
          limit = (if sr_SampleStep req = 0 then sr_Limit req else sr_SampleStep req * sr_Limit req);
          bg = env_badger env;
          r = getDBReader rc
      in res_bind (if sr_SampleStep req = 0 \<and> (isSnapshotIsolation rc \<or> isRcCheckTSIsolationLevel rc)
                   then if bytes_Compare startKey endKey \<le> 0
                        then collectRangeLock env rc st (sr_Version req) startKey endKey
                        else collectRangeLock env rc st (sr_Version req) endKey startKey
                   else Inr []) (\<lambda>lockPairs.
         case (if sr_Reverse req
               then DBReader_ReverseScan bg r (store_db st) startKey endKey (uint limit) (sr_Version req)
               else DBReader_Scan bg r (store_db st) startKey endKey (uint limit) (sr_Version req)) of
           Inl e \<Rightarrow> Inr [kv_pair [] [] (Some e)]
         | Inr kvs \<Rightarrow>
             let pairs = lockPairs @ kvScanProcessor (sr_SampleStep req) 0 kvs;
                 sorted = (if sr_Reverse req then rev (sort_key kp_Key (rev pairs)) else sort_key kp_Key pairs)
             in Inr (valid_pairs (uint limit) None 0 sorted)))"

section \<open>Inspection\<close>

record MvccInfo =
  mi_Lock :: "Lock option"
  mi_Writes :: "MvccWrite list"
  mi_Values :: "(u64 \<times> bytes) list"

fun getExtraMvccInfo_loop :: "bytes \<Rightarrow> item list \<Rightarrow> kv_error + MvccWrite list" where
  "getExtraMvccInfo_loop rbEndKey [] = Inr []"
| "getExtraMvccInfo_loop rbEndKey (it # its) =
     (let key = item_Key it
      in if rbEndKey \<noteq> [] \<and> bytes_Compare key rbEndKey > 0 then Inr []
         else if key = [] \<or> (key ! 0 \<noteq> 117 \<and> key ! 0 \<noteq> 110) then getExtraMvccInfo_loop rbEndKey its
         else case DecodeKeyTS key of
                None \<Rightarrow> Inl Panic
              | Some rollbackTs \<Rightarrow>
                  res_bind (getExtraMvccInfo_loop rbEndKey its) (\<lambda>ws.
                    Inr (\<lparr>mw_Type = Op_Rollback, mw_StartTs = rollbackTs, mw_CommitTs = rollbackTs,
                          mw_ShortValue = []\<rparr> # ws)))"

definition getExtraMvccInfo ::
  "('db, 'ls, 'h) mvcc_env \<Rightarrow> requestCtx \<Rightarrow> ('db, 'ls) MVCCStore \<Rightarrow> bytes \<Rightarrow> kv_error + MvccWrite list" where
  "getExtraMvccInfo env rc st rawkey =
     getExtraMvccInfo_loop (EncodeExtraTxnStatusKey rawkey 0)
       (bg_iter (env_badger env) (store_db st) (bg_newReadTS (env_badger env)) (GetExtraIter (getDBReader rc))
         (EncodeExtraTxnStatusKey rawkey (- 1)))"

definition MvccGetByKey ::
  "('db, 'ls, 'h) mvcc_env \<Rightarrow> requestCtx \<Rightarrow> ('db, 'ls) MVCCStore \<Rightarrow> bytes \<Rightarrow> kv_error + MvccInfo" where
  "MvccGetByKey env rc st key =
     res_bind (getLock env st key) (\<lambda>lock.
     res_bind (GetMvccInfoByKey (env_badger env) (getDBReader rc) (store_db st) key) (\<lambda>ws.
     res_bind (getExtraMvccInfo env rc st key) (\<lambda>rs.
       let writes = rev (sort_key mw_CommitTs (rev (ws @ rs)))
       in Inr \<lparr>mi_Lock = lock, mi_Writes = writes, mi_Values = map (\<lambda>w. (mw_StartTs w, mw_ShortValue w)) writes\<rparr>)))"

definition MvccGetByStartTs ::
  "('db, 'ls, 'h) mvcc_env \<Rightarrow> requestCtx \<Rightarrow> ('db, 'ls) MVCCStore \<Rightarrow> u64 \<Rightarrow> kv_error + (MvccInfo \<times> bytes) option" where
  "MvccGetByStartTs env rc st startTs =
     (case GetKeyByStartTs (env_badger env) (getDBReader rc) (store_db st) (RawStart rc) (RawEnd rc) startTs of
        None \<Rightarrow> Inr None
      | Some rawKey \<Rightarrow> res_bind (MvccGetByKey env rc st rawKey) (\<lambda>res. Inr (Some (res, rawKey))))"

section \<open>Garbage collection\<close>

definition SafePoint_UpdateTS :: "u64 \<Rightarrow> u64 \<Rightarrow> u64" where
  "SafePoint_UpdateTS ts old = (if old < ts then ts else old)"

definition UpdateSafePoint :: "u64 \<Rightarrow> ('db, 'ls) MVCCStore \<Rightarrow> ('db, 'ls) MVCCStore" where
  "UpdateSafePoint ts st = st\<lparr>safePoint := SafePoint_UpdateTS ts (safePoint st)\<rparr>"

datatype decision = DecisionKeep | DecisionMarkTombstone | DecisionDrop

definition metaPrefix :: byte where "metaPrefix = 109"
definition metaExtraPrefix :: byte where "metaExtraPrefix = 110"
definition tablePrefix :: byte where "tablePrefix = 116"
definition tableExtraPrefix :: byte where "tableExtraPrefix = 117"

definition GCCompactionFilter_Filter :: "u64 \<Rightarrow> bytes \<Rightarrow> bytes \<Rightarrow> bytes \<Rightarrow> kv_error + decision" where
  "GCCompactionFilter_Filter safepoint key val userMeta =
     (case key of
        [] \<Rightarrow> Inl Panic
      | k # _ \<Rightarrow>
          Inr (if (k = metaPrefix \<or> k = tablePrefix) \<and> DBUserMeta_CommitTS userMeta < safepoint \<and> val = []
               then DecisionMarkTombstone
               else if (k = metaExtraPrefix \<or> k = tableExtraPrefix) \<and> DBUserMeta_StartTS userMeta < safepoint
               then DecisionDrop
               else DecisionKeep))"

end
