(* ===== verification/Spec2Isabelle.thy ===== *)
theory Spec2Isabelle
  imports Codec_Number Codec_Varint Codec_Comparable Codec_Bytes Codec_Peek Kv_Handle Tx_List Mvcc_Read
begin

text \<open>
  Verification library of the storage-side core of TiDB.
\<close>

end
